theory Spec2Isabelle
  imports Complex_Main "HOL-Library.AList"
begin

section \<open>JavaScript numbers\<close>

text \<open>
  The scheduler computes with JavaScript numbers. They are modelled as exact rationals
  plus \<open>NaN\<close>: rounding of doubles, the infinities and negative zero are left out.
  Every comparison with \<open>NaN\<close> is false and every arithmetic operation on it gives
  \<open>NaN\<close>, as in the language.
\<close>

datatype jsnum = NaN | Fin rat

fun js_add :: "jsnum \<Rightarrow> jsnum \<Rightarrow> jsnum" where
  "js_add (Fin x) (Fin y) = Fin (x + y)"
| "js_add _ _ = NaN"

fun js_sub :: "jsnum \<Rightarrow> jsnum \<Rightarrow> jsnum" where
  "js_sub (Fin x) (Fin y) = Fin (x - y)"
| "js_sub _ _ = NaN"

text \<open>Division by the literal 60, the only divisor of the time parsers.\<close>

fun over60 :: "jsnum \<Rightarrow> jsnum" where
  "over60 (Fin x) = Fin (x / 60)"
| "over60 NaN = NaN"

fun js_lt :: "jsnum \<Rightarrow> jsnum \<Rightarrow> bool" where
  "js_lt (Fin x) (Fin y) = (x < y)"
| "js_lt _ _ = False"

fun js_gt :: "jsnum \<Rightarrow> jsnum \<Rightarrow> bool" where
  "js_gt (Fin x) (Fin y) = (x > y)"
| "js_gt _ _ = False"

text \<open>Strict equality \<^verbatim>\<open>===\<close> of two numbers.\<close>

fun js_eq :: "jsnum \<Rightarrow> jsnum \<Rightarrow> bool" where
  "js_eq (Fin x) (Fin y) = (x = y)"
| "js_eq _ _ = False"

text \<open>Truthiness of a number: \<open>0\<close> and \<open>NaN\<close> are falsy.\<close>

fun truthy :: "jsnum \<Rightarrow> bool" where
  "truthy (Fin x) = (x \<noteq> 0)"
| "truthy NaN = False"

section \<open>Timeslots and sections\<close>

text \<open>
  A meeting time. The frontend's \<^verbatim>\<open>Timeslot\<close> has the fields \<^verbatim>\<open>day\<close>,
  \<^verbatim>\<open>startTime\<close>, \<^verbatim>\<open>endTime\<close>; the backend keeps the tuple
  \<^verbatim>\<open>[day, start_time, end_time, startTime, endTime]\<close>, whose two raw strings no
  function below reads, so one record serves both. The day is a string of one character
  in both (a character of the days field; \<^verbatim>\<open>day.charAt(0).toUpperCase()\<close>).
\<close>

record timeslot =
  day :: char
  startTime :: jsnum
  endTime :: jsnum

record Section =
  course_code :: string
  section_id :: string
  timeslots :: "timeslot list"

type_synonym schedule = "Section list"

subsection \<open>The conflict detector\<close>

text \<open>
  \<^verbatim>\<open>
  conflictsWith(other) {
      for (const [d1, , , s1, e1] of this.timeslots) {
          for (const [d2, , , s2, e2] of other.timeslots) {
              if (d1 === d2 && e1 > s2 && e2 > s1) { return true; }
          }
      }
      return false;
  }
  \<close>
  The two loops with their early return, the inner one first.
\<close>

definition overlaps :: "timeslot \<Rightarrow> timeslot \<Rightarrow> bool" where
  "overlaps t1 t2 =
     (day t1 = day t2 \<and> js_gt (endTime t1) (startTime t2) \<and> js_gt (endTime t2) (startTime t1))"

fun conflicts_inner :: "timeslot \<Rightarrow> timeslot list \<Rightarrow> bool" where
  "conflicts_inner t1 [] = False"
| "conflicts_inner t1 (t2 # rest) = (if overlaps t1 t2 then True else conflicts_inner t1 rest)"

fun conflicts_outer :: "timeslot list \<Rightarrow> timeslot list \<Rightarrow> bool" where
  "conflicts_outer [] other = False"
| "conflicts_outer (t1 # rest) other =
     (if conflicts_inner t1 other then True else conflicts_outer rest other)"

definition conflictsWith :: "Section \<Rightarrow> Section \<Rightarrow> bool" where
  "conflictsWith this other = conflicts_outer (timeslots this) (timeslots other)"

section \<open>The combination generator\<close>

text \<open>
  A result of type \<open>'a option\<close> is \<open>None\<close> when the JavaScript does not return
  normally: it loops forever or throws.
\<close>

subsection \<open>Backend: \<^verbatim>\<open>product\<close>, \<^verbatim>\<open>combinations\<close>, \<^verbatim>\<open>generateSchedules\<close>\<close>

text \<open>
  \<^verbatim>\<open>
  function* product(...iterables) {
      if (iterables.length === 0) { yield []; return; }
      const [head, ...tail] = iterables;
      const remaining = [...product(...tail)];
      for (const item of head) {
          for (const items of remaining) { yield [item, ...items]; }
      }
  }
  \<close>
  The generator is finite, so it is modelled by the list of what it yields.
\<close>

fun product_be :: "'a list list \<Rightarrow> 'a list list" where
  "product_be [] = [[]]"
| "product_be (head # tail) =
     concat (map (\<lambda>item. map (\<lambda>items. item # items) (product_be tail)) head)"

text \<open>
  \<^verbatim>\<open>
  function* combinations(iterable, r) {
      const pool = Array.from(iterable);
      const n = pool.length;
      if (r > n) { return; }
      const indices = Array.from({ length: r }, (_, i) => i);
      yield indices.map(i => pool[i]);
      while (true) {
          let i = r - 1;
          while (i >= 0 && indices[i] === i + n - r) { i--; }
          if (i < 0) { return; }
          indices[i]++;
          for (let j = i + 1; j < r; j++) { indices[j] = indices[j - 1] + 1; }
          yield indices.map(i => pool[i]);
      }
  }
  \<close>
  \<open>find_index indices n r k\<close> is the inner \<^verbatim>\<open>while\<close> entered with \<open>i = k - 1\<close>;
  it gives \<open>None\<close> when the loop leaves with \<open>i < 0\<close>. It is only reached with
  \<open>r \<le> n\<close>, where \<open>i + n - r\<close> is not negative. \<open>advance\<close> is the increment
  and the \<^verbatim>\<open>for\<close> loop after it. \<open>pick\<close> is \<^verbatim>\<open>indices.map(i => pool[i])\<close>,
  an index out of range reading \<^verbatim>\<open>undefined\<close> (\<open>None\<close>). The outer
  \<^verbatim>\<open>while (true)\<close> has no bound in the code, so it is a partial function.
\<close>

fun find_index :: "nat list \<Rightarrow> nat \<Rightarrow> nat \<Rightarrow> nat \<Rightarrow> nat option" where
  "find_index indices n r 0 = None"
| "find_index indices n r (Suc i) =
     (if indices ! i = i + n - r then find_index indices n r i else Some i)"

definition advance :: "nat list \<Rightarrow> nat \<Rightarrow> nat \<Rightarrow> nat list" where
  "advance indices i r =
     fold (\<lambda>j ind. ind[j := ind ! (j - 1) + 1]) [i + 1..<r] (indices[i := indices ! i + 1])"

definition pick :: "'a list \<Rightarrow> nat list \<Rightarrow> 'a option list" where
  "pick pool indices = map (\<lambda>i. if i < length pool then Some (pool ! i) else None) indices"

partial_function (option) combinations_loop ::
  "'a list \<Rightarrow> nat \<Rightarrow> nat list \<Rightarrow> 'a option list list option" where
  "combinations_loop pool r indices =
     (case find_index indices (length pool) r r of
        None \<Rightarrow> Some []
      | Some i \<Rightarrow>
          Option.bind (combinations_loop pool r (advance indices i r))
            (\<lambda>rest. Some (pick pool (advance indices i r) # rest)))"

declare combinations_loop.simps [code]

definition combinations :: "'a list \<Rightarrow> nat \<Rightarrow> 'a option list list option" where
  "combinations pool r =
     (if r > length pool then Some []
      else Option.bind (combinations_loop pool r [0..<r])
             (\<lambda>rest. Some (pick pool [0..<r] # rest)))"

text \<open>
  \<^verbatim>\<open>
  function generateSchedules(courses) {
      const courseSections = Object.values(courses);
      const combos = product(...courseSections);
      const validSchedules = [];
      for (const c of combos) {
          let hasConflict = false;
          for (const [s1, s2] of combinations(c, 2)) {
              if (s1.conflictsWith(s2)) { hasConflict = true; break; }
          }
          if (!hasConflict) { validSchedules.push(c); }
      }
      return validSchedules;
  }
  \<close>
  \<open>courses\<close> is an object used as a dictionary: an association list from course
  codes to section lists, in insertion order, which is the order of
  \<^verbatim>\<open>Object.values\<close> for keys that are not array indices (the property names every
  object inherits are left out). \<open>js_index\<close> is the destructuring \<^verbatim>\<open>[s1, s2]\<close> of a yielded array.
  \<open>call_conflictsWith\<close> is the call \<^verbatim>\<open>s1.conflictsWith(s2)\<close> on values that may be
  \<^verbatim>\<open>undefined\<close>: it throws when \<open>s1\<close> is, and when \<open>s2\<close> is and the loop over the
  timeslots of \<open>s1\<close> is entered. The pairs of one combination are taken as the list the
  generator yields.
\<close>

definition js_index :: "'a option list \<Rightarrow> nat \<Rightarrow> 'a option" where
  "js_index arr i = (if i < length arr then arr ! i else None)"

fun call_conflictsWith :: "Section option \<Rightarrow> Section option \<Rightarrow> bool option" where
  "call_conflictsWith None _ = None"
| "call_conflictsWith (Some s1) None = (if timeslots s1 = [] then Some False else None)"
| "call_conflictsWith (Some s1) (Some s2) = Some (conflictsWith s1 s2)"

fun hasConflict :: "Section option list list \<Rightarrow> bool option" where
  "hasConflict [] = Some False"
| "hasConflict (p # ps) =
     (case call_conflictsWith (js_index p 0) (js_index p 1) of
        None \<Rightarrow> None
      | Some True \<Rightarrow> Some True
      | Some False \<Rightarrow> hasConflict ps)"

fun validSchedules :: "schedule list \<Rightarrow> schedule list option" where
  "validSchedules [] = Some []"
| "validSchedules (c # combos) =
     (case combinations c 2 of
        None \<Rightarrow> None
      | Some pairs \<Rightarrow>
          (case hasConflict pairs of
             None \<Rightarrow> None
           | Some conflict \<Rightarrow>
               (case validSchedules combos of
                  None \<Rightarrow> None
                | Some valid \<Rightarrow> Some (if conflict then valid else c # valid))))"

definition generateSchedules :: "(string \<times> Section list) list \<Rightarrow> schedule list option" where
  "generateSchedules courses = validSchedules (product_be (map snd courses))"

subsection \<open>Frontend: \<^verbatim>\<open>product\<close> and \<^verbatim>\<open>generateSchedules\<close>\<close>

text \<open>
  \<^verbatim>\<open>
  function product(...arrays) {
      return arrays.reduce((acc, array) =>
          acc.flatMap(x => array.map(y => [...x, y])), [[]]);
  }
  \<close>
\<close>

definition product_fe :: "'a list list \<Rightarrow> 'a list list" where
  "product_fe arrays =
     foldl (\<lambda>acc array. concat (map (\<lambda>x. map (\<lambda>y. x @ [y]) array) acc)) [[]] arrays"

text \<open>
  \<^verbatim>\<open>
  let hasConflict = false;
  for (let i = 0; i < combo.length; i++) {
      for (let j = i + 1; j < combo.length; j++) {
          if (combo[i].conflictsWith(combo[j])) { hasConflict = true; break; }
      }
      if (hasConflict) break;
  }
  \<close>
\<close>

definition hasConflict_fe :: "schedule \<Rightarrow> bool" where
  "hasConflict_fe combo =
     list_ex (\<lambda>i. list_ex (\<lambda>j. conflictsWith (combo ! i) (combo ! j)) [i + 1..<length combo])
       [0..<length combo]"

text \<open>
  \<^verbatim>\<open>
  export function generateSchedules(allCoursesData, selectedCourseCodes) {
      const courses = {};
      for (const code of selectedCourseCodes) { courses[code] = []; }
      ... // the rows of the selected courses are grouped into sectionsData
      for (const sectionId in sectionsData) {
          const data = sectionsData[sectionId];
          const timeslots = data.timeslotsRaw.map(t => new Timeslot(t.day, t.start, t.end));
          const section = new Section(data.courseCode, sectionId, timeslots);
          courses[data.courseCode].push(section);
      }
      const sectionGroups = Object.values(courses).filter(group => group.length > 0);
      if (sectionGroups.length !== selectedCourseCodes.length) { return []; }
      const combinations = product(...sectionGroups);
      const validSchedules = [];
      for (const combo of combinations) {
          ... // hasConflict, as above
          if (!hasConflict) { validSchedules.push(combo); }
      }
      return validSchedules;
  }
  \<close>
  The parsing of the raw rows is not modelled: \<open>generateSchedules_fe\<close> takes the
  \<^verbatim>\<open>Section\<close> objects of the second loop, in its order, in place of
  \<^verbatim>\<open>allCoursesData\<close>. The code builds them only from rows whose course code is
  selected; \<open>push_all\<close> is \<open>None\<close> (the \<^verbatim>\<open>push\<close> throws) for any other section.
\<close>

fun push_all ::
  "Section list \<Rightarrow> (string \<times> Section list) list \<Rightarrow> (string \<times> Section list) list option" where
  "push_all [] courses = Some courses"
| "push_all (s # ss) courses =
     (case map_of courses (course_code s) of
        None \<Rightarrow> None
      | Some secs \<Rightarrow> push_all ss (AList.update (course_code s) (secs @ [s]) courses))"

definition generateSchedules_fe :: "Section list \<Rightarrow> string list \<Rightarrow> schedule list option" where
  "generateSchedules_fe sections selectedCourseCodes =
     (case push_all sections (fold (\<lambda>c courses. AList.update c [] courses) selectedCourseCodes []) of
        None \<Rightarrow> None
      | Some courses \<Rightarrow>
          (let sectionGroups = filter (\<lambda>group. length group > 0) (map snd courses) in
           if length sectionGroups \<noteq> length selectedCourseCodes then Some []
           else Some (filter (\<lambda>combo. \<not> hasConflict_fe combo) (product_fe sectionGroups))))"

section \<open>The time normalizer\<close>

text \<open>
  Strings are lists of characters. \<open>js_split sep s\<close> is \<^verbatim>\<open>s.split(sep)\<close> for a
  separator of one character: it never gives the empty array. \<open>nth_opt\<close> reads an
  array element, \<open>None\<close> standing for \<^verbatim>\<open>undefined\<close>.
\<close>

fun js_split :: "char \<Rightarrow> string \<Rightarrow> string list" where
  "js_split sep [] = [[]]"
| "js_split sep (c # cs) =
     (if c = sep then [] # js_split sep cs
      else (case js_split sep cs of [] \<Rightarrow> [[c]] | p # ps \<Rightarrow> (c # p) # ps))"

definition nth_opt :: "'a list \<Rightarrow> nat \<Rightarrow> 'a option" where
  "nth_opt arr i = (if i < length arr then Some (arr ! i) else None)"

text \<open>
  \<^verbatim>\<open>Number(s)\<close> on a string, for the decimal literals without exponent: white space
  around the literal is dropped, the empty string is \<open>0\<close>, an optional sign, digits
  with an optional fraction. Any other string is \<open>NaN\<close>. The literals with an
  exponent or a radix prefix and \<^verbatim>\<open>Infinity\<close>, which JavaScript also converts, are
  outside this model; no statement below applies \<open>Number_js\<close> to one.
\<close>

definition is_space :: "char \<Rightarrow> bool" where
  "is_space c = (c \<in> set [CHR 0x09, CHR 0x0A, CHR 0x0B, CHR 0x0C, CHR 0x0D, CHR '' ''])"

definition trim :: "string \<Rightarrow> string" where
  "trim s = rev (dropWhile is_space (rev (dropWhile is_space s)))"

definition is_digit :: "char \<Rightarrow> bool" where
  "is_digit c = (48 \<le> (of_char c :: nat) \<and> (of_char c :: nat) \<le> 57)"

definition digit_val :: "char \<Rightarrow> nat" where
  "digit_val c = of_char c - 48"

definition dec_value :: "string \<Rightarrow> nat" where
  "dec_value ds = foldl (\<lambda>acc c. 10 * acc + digit_val c) 0 ds"

definition unsigned_decimal :: "string \<Rightarrow> rat option" where
  "unsigned_decimal t =
     (case js_split CHR ''.'' t of
        [ip] \<Rightarrow> if ip \<noteq> [] \<and> list_all is_digit ip then Some (of_nat (dec_value ip)) else None
      | [ip, fp] \<Rightarrow>
          if (ip \<noteq> [] \<or> fp \<noteq> []) \<and> list_all is_digit ip \<and> list_all is_digit fp
          then Some (of_nat (dec_value ip) + of_nat (dec_value fp) / 10 ^ length fp)
          else None
      | _ \<Rightarrow> None)"

definition signed_decimal :: "string \<Rightarrow> rat option" where
  "signed_decimal t =
     (case t of
        [] \<Rightarrow> None
      | c # u \<Rightarrow>
          if c = CHR ''-'' then map_option uminus (unsigned_decimal u)
          else if c = CHR ''+'' then unsigned_decimal u
          else unsigned_decimal t)"

definition Number_js :: "string \<Rightarrow> jsnum" where
  "Number_js s =
     (let t = trim s in
      if t = [] then Fin 0
      else (case signed_decimal t of None \<Rightarrow> NaN | Some q \<Rightarrow> Fin q))"

text \<open>
  An argument of \<^verbatim>\<open>parseTime\<close>: a string, or one of the values that are not strings.
\<close>

datatype jsval = JUndefined | JNull | JBool bool | JNum jsnum | JStr string

text \<open>
  Backend:
  \<^verbatim>\<open>
  function parseTime(t) {
      try {
          const [hours, minutes] = t.split(':').map(Number);
          return hours + minutes / 60.0;
      } catch (e) {
          return 0.0;
      }
  }
  \<close>
  On a value that is not a string \<^verbatim>\<open>t.split(':')\<close> throws and the handler returns
  \<open>0\<close>. On a string nothing throws: a missing second part leaves \<^verbatim>\<open>minutes\<close>
  undefined, and \<^verbatim>\<open>undefined / 60.0\<close> is \<open>NaN\<close>.
\<close>

definition parseTime :: "jsval \<Rightarrow> jsnum" where
  "parseTime t =
     (case t of
        JStr s \<Rightarrow>
          (let nums = map Number_js (js_split CHR '':'' s);
               hours = hd nums;
               minutes = nth_opt nums 1
           in js_add hours (over60 (case minutes of None \<Rightarrow> NaN | Some m \<Rightarrow> m)))
      | _ \<Rightarrow> Fin 0)"

text \<open>
  Frontend:
  \<^verbatim>\<open>
  const parseTime = (timeStr) => {
      if (!timeStr || typeof timeStr !== 'string') return 0;
      const [time, modifier] = timeStr.split(' ');
      let [hours, minutes] = time.split(':').map(Number);
      if (modifier === 'PM' && hours < 12) hours += 12;
      if (modifier === 'AM' && hours === 12) hours = 0;
      return hours + (minutes || 0) / 60;
  };
  \<close>
\<close>

definition parseTime_fe :: "jsval \<Rightarrow> jsnum" where
  "parseTime_fe timeStr =
     (case timeStr of
        JStr s \<Rightarrow>
          if s = [] then Fin 0
          else
            (let parts = js_split CHR '' '' s;
                 time = hd parts;
                 modifier = nth_opt parts 1;
                 nums = map Number_js (js_split CHR '':'' time);
                 hours = hd nums;
                 minutes = nth_opt nums 1;
                 hours = (if modifier = Some ''PM'' \<and> js_lt hours (Fin 12)
                          then js_add hours (Fin 12) else hours);
                 hours = (if modifier = Some ''AM'' \<and> js_eq hours (Fin 12) then Fin 0 else hours)
             in js_add hours
                  (over60 (case minutes of None \<Rightarrow> Fin 0 | Some m \<Rightarrow> if truthy m then m else Fin 0)))
      | _ \<Rightarrow> Fin 0)"

section \<open>The preference scorer\<close>

text \<open>
  \<^verbatim>\<open>Array.prototype.sort\<close> with a comparator is stable; it is modelled as the
  stable insertion sort, an element moving past a neighbour only when the comparator is
  positive (a \<open>NaN\<close> from the comparator counts as \<open>0\<close>, as the language says).
  For a comparator that is not a consistent order, as with \<open>NaN\<close> keys, the language
  leaves the result to the implementation.
\<close>

fun insert_sorted :: "('a \<Rightarrow> 'a \<Rightarrow> jsnum) \<Rightarrow> 'a \<Rightarrow> 'a list \<Rightarrow> 'a list" where
  "insert_sorted cmp x [] = [x]"
| "insert_sorted cmp x (y # ys) =
     (if js_gt (cmp x y) (Fin 0) then y # insert_sorted cmp x ys else x # y # ys)"

definition js_sort :: "('a \<Rightarrow> 'a \<Rightarrow> jsnum) \<Rightarrow> 'a list \<Rightarrow> 'a list" where
  "js_sort cmp xs = foldr (insert_sorted cmp) xs []"

subsection \<open>Backend scoring\<close>

text \<open>
  \<^verbatim>\<open>
  function countMorningClasses(schedule, cutoff) {
      return schedule.reduce((acc, sec) => acc + sec.timeslots.filter(ts => ts[3] < cutoff).length, 0);
  }
  function countEveningClasses(schedule, cutoff) {
      return schedule.reduce((acc, sec) => acc + sec.timeslots.filter(ts => ts[3] > cutoff).length, 0);
  }
  function countFridayClasses(schedule) {
      return schedule.reduce((acc, sec) => acc + sec.timeslots.filter(ts => ts[0] === 'F').length, 0);
  }
  \<close>
\<close>

definition countMorningClasses :: "schedule \<Rightarrow> jsnum \<Rightarrow> int" where
  "countMorningClasses schedule cutoff =
     foldl (\<lambda>acc sec. acc + int (length (filter (\<lambda>ts. js_lt (startTime ts) cutoff) (timeslots sec))))
       0 schedule"

definition countEveningClasses :: "schedule \<Rightarrow> jsnum \<Rightarrow> int" where
  "countEveningClasses schedule cutoff =
     foldl (\<lambda>acc sec. acc + int (length (filter (\<lambda>ts. js_gt (startTime ts) cutoff) (timeslots sec))))
       0 schedule"

definition countFridayClasses :: "schedule \<Rightarrow> int" where
  "countFridayClasses schedule =
     foldl (\<lambda>acc sec. acc + int (length (filter (\<lambda>ts. day ts = CHR ''F'') (timeslots sec))))
       0 schedule"

text \<open>
  \<^verbatim>\<open>
  function countBackToBack(schedule) {
      let backToBackCount = 0;
      const dailyTimeslots = {};
      const MINIMUM_GAP_TOLERANCE = 1.5 / 60.0;
      for (const section of schedule) {
          for (const [day, , , start_time, end_time] of section.timeslots) {
              if (!dailyTimeslots[day]) { dailyTimeslots[day] = []; }
              dailyTimeslots[day].push([start_time, end_time]);
          }
      }
      for (const day in dailyTimeslots) {
          if (dailyTimeslots[day].length < 2) continue;
          const sortedTimes = dailyTimeslots[day].sort((a, b) => a[0] - b[0]);
          for (let i = 1; i < sortedTimes.length; i++) {
              const previous_end_time = sortedTimes[i - 1][1];
              const current_start_time = sortedTimes[i][0];
              if ((current_start_time - previous_end_time) < MINIMUM_GAP_TOLERANCE) {
                  backToBackCount++;
              }
          }
      }
      return backToBackCount;
  }
  \<close>
  \<open>dailyTimeslots\<close> is an association list from days to lists of (start, end) pairs;
  \<open>push_slot\<close> is the body of the first inner loop, \<open>count_adjacent\<close> the last
  loop, with the counter passed through.
\<close>

definition MINIMUM_GAP_TOLERANCE :: jsnum where
  "MINIMUM_GAP_TOLERANCE = over60 (Fin (3 / 2))"

definition push_slot ::
  "timeslot \<Rightarrow> (char \<times> (jsnum \<times> jsnum) list) list \<Rightarrow> (char \<times> (jsnum \<times> jsnum) list) list" where
  "push_slot ts dailyTimeslots =
     (case map_of dailyTimeslots (day ts) of
        None \<Rightarrow> AList.update (day ts) [(startTime ts, endTime ts)] dailyTimeslots
      | Some slots \<Rightarrow> AList.update (day ts) (slots @ [(startTime ts, endTime ts)]) dailyTimeslots)"

definition group_by_day :: "schedule \<Rightarrow> (char \<times> (jsnum \<times> jsnum) list) list" where
  "group_by_day schedule =
     fold (\<lambda>sec dailyTimeslots. fold push_slot (timeslots sec) dailyTimeslots) schedule []"

fun count_adjacent :: "(jsnum \<times> jsnum) list \<Rightarrow> int \<Rightarrow> int" where
  "count_adjacent (previous # current # rest) backToBackCount =
     count_adjacent (current # rest)
       (if js_lt (js_sub (fst current) (snd previous)) MINIMUM_GAP_TOLERANCE
        then backToBackCount + 1 else backToBackCount)"
| "count_adjacent _ backToBackCount = backToBackCount"

definition countBackToBack :: "schedule \<Rightarrow> int" where
  "countBackToBack schedule =
     fold (\<lambda>(d, slots) backToBackCount.
             if length slots < 2 then backToBackCount
             else count_adjacent (js_sort (\<lambda>a b. js_sub (fst a) (fst b)) slots) backToBackCount)
       (group_by_day schedule) 0"

text \<open>
  \<^verbatim>\<open>
  function countDaysUsed(schedule) {
      const days = new Set();
      schedule.forEach(sec => sec.timeslots.forEach(ts => days.add(ts[0])));
      return days.size;
  }
  \<close>
  The \<^verbatim>\<open>Set\<close> is a list without repetitions, in insertion order.
\<close>

definition set_add :: "'a \<Rightarrow> 'a list \<Rightarrow> 'a list" where
  "set_add x days = (if x \<in> set days then days else days @ [x])"

definition countDaysUsed :: "schedule \<Rightarrow> int" where
  "countDaysUsed schedule =
     int (length (fold (\<lambda>sec days. fold (\<lambda>ts days. set_add (day ts) days) (timeslots sec) days)
                    schedule []))"

text \<open>
  \<^verbatim>\<open>
  function scoreSchedule(schedule, prefs) {
      let score = 0;
      if (prefs.no_before) score += countMorningClasses(schedule, prefs.before_cutoff);
      if (prefs.no_after) score += countEveningClasses(schedule, prefs.after_cutoff);
      if (prefs.avoid_friday) score += countFridayClasses(schedule);
      if (prefs.avoid_back_to_back) score += countBackToBack(schedule);
      if (prefs.minimize_days) score += countDaysUsed(schedule);
      return score;
  }
  \<close>
\<close>

record prefs =
  no_before :: bool
  before_cutoff :: jsnum
  no_after :: bool
  after_cutoff :: jsnum
  avoid_friday :: bool
  avoid_back_to_back :: bool
  minimize_days :: bool

definition scoreSchedule :: "schedule \<Rightarrow> prefs \<Rightarrow> int" where
  "scoreSchedule schedule p =
     (let score = 0;
          score = (if no_before p then score + countMorningClasses schedule (before_cutoff p) else score);
          score = (if no_after p then score + countEveningClasses schedule (after_cutoff p) else score);
          score = (if avoid_friday p then score + countFridayClasses schedule else score);
          score = (if avoid_back_to_back p then score + countBackToBack schedule else score);
          score = (if minimize_days p then score + countDaysUsed schedule else score)
      in score)"

subsection \<open>Frontend scoring\<close>

text \<open>
  \<^verbatim>\<open>
  const countMorningClasses = (schedule, cutoff) =>
      schedule.flatMap(sec => sec.timeslots).filter(ts => ts.startTime < cutoff).length;
  const countEveningClasses = (schedule, cutoff) =>
      schedule.flatMap(sec => sec.timeslots).filter(ts => ts.startTime > cutoff).length;
  const countFridayClasses = (schedule) =>
      schedule.flatMap(sec => sec.timeslots).filter(ts => ts.day === 'F').length;
  const countDaysUsed = (schedule) =>
      new Set(schedule.flatMap(sec => sec.timeslots).map(ts => ts.day)).size;
  \<close>
\<close>

definition flat_timeslots :: "schedule \<Rightarrow> timeslot list" where
  "flat_timeslots schedule = concat (map timeslots schedule)"

definition countMorningClasses_fe :: "schedule \<Rightarrow> jsnum \<Rightarrow> int" where
  "countMorningClasses_fe schedule cutoff =
     int (length (filter (\<lambda>ts. js_lt (startTime ts) cutoff) (flat_timeslots schedule)))"

definition countEveningClasses_fe :: "schedule \<Rightarrow> jsnum \<Rightarrow> int" where
  "countEveningClasses_fe schedule cutoff =
     int (length (filter (\<lambda>ts. js_gt (startTime ts) cutoff) (flat_timeslots schedule)))"

definition countFridayClasses_fe :: "schedule \<Rightarrow> int" where
  "countFridayClasses_fe schedule =
     int (length (filter (\<lambda>ts. day ts = CHR ''F'') (flat_timeslots schedule)))"

definition countDaysUsed_fe :: "schedule \<Rightarrow> int" where
  "countDaysUsed_fe schedule =
     int (length (fold set_add (map day (flat_timeslots schedule)) []))"

text \<open>
  \<^verbatim>\<open>
  const countBackToBack = (schedule) => {
      let b2bCount = 0;
      const dailyTimeslots = {};
      const MIN_GAP_TOLERANCE = 1.5 / 60.0; // 1.5 minutes in hours
      schedule.flatMap(sec => sec.timeslots).forEach(ts => {
          if (!dailyTimeslots[ts.day]) dailyTimeslots[ts.day] = [];
          dailyTimeslots[ts.day].push({ start: ts.startTime, end: ts.endTime });
      });
      for (const day in dailyTimeslots) {
          const slots = dailyTimeslots[day].sort((a, b) => a.start - b.start);
          for (let i = 1; i < slots.length; i++) {
              if ((slots[i].start - slots[i - 1].end) < MIN_GAP_TOLERANCE) { b2bCount++; }
          }
      }
      return b2bCount;
  };
  \<close>
\<close>

definition countBackToBack_fe :: "schedule \<Rightarrow> int" where
  "countBackToBack_fe schedule =
     fold (\<lambda>(d, slots) b2bCount.
             count_adjacent (js_sort (\<lambda>a b. js_sub (fst a) (fst b)) slots) b2bCount)
       (fold push_slot (flat_timeslots schedule) []) 0"

text \<open>
  \<^verbatim>\<open>
  export function scoreSchedule(schedule, prefs) {
      let score = 0;
      if (prefs.noBefore) {
          const beforeCutoff = parseTime(prefs.beforeTime + " AM");
          score += countMorningClasses(schedule, beforeCutoff);
      }
      if (prefs.noAfter) {
          const afterCutoff = parseTime(prefs.afterTime + " PM");
          score += countEveningClasses(schedule, afterCutoff);
      }
      if (prefs.avoidFriday) { score += countFridayClasses(schedule); }
      if (prefs.avoidB2B) { score += countBackToBack(schedule); }
      if (prefs.minimizeDays) { score += countDaysUsed(schedule); }
      return score;
  }
  \<close>
\<close>

record prefs_fe =
  noBefore :: bool
  beforeTime :: string
  noAfter :: bool
  afterTime :: string
  avoidFriday :: bool
  avoidB2B :: bool
  minimizeDays :: bool

definition scoreSchedule_fe :: "schedule \<Rightarrow> prefs_fe \<Rightarrow> int" where
  "scoreSchedule_fe schedule p =
     (let score = 0;
          score = (if noBefore p
                   then score + countMorningClasses_fe schedule (parseTime_fe (JStr (beforeTime p @ '' AM'')))
                   else score);
          score = (if noAfter p
                   then score + countEveningClasses_fe schedule (parseTime_fe (JStr (afterTime p @ '' PM'')))
                   else score);
          score = (if avoidFriday p then score + countFridayClasses_fe schedule else score);
          score = (if avoidB2B p then score + countBackToBack_fe schedule else score);
          score = (if minimizeDays p then score + countDaysUsed_fe schedule else score)
      in score)"

section \<open>The optimal selector\<close>

text \<open>
  Backend, in the handler of \<^verbatim>\<open>/api/generate-schedules\<close>:
  \<^verbatim>\<open>
  const sectionsByCourse = processCourseData(data);
  const coursesToSchedule = {};
  selectedCourses.forEach(code => {
      if (sectionsByCourse[code]) { coursesToSchedule[code] = sectionsByCourse[code]; }
  });
  if (Object.keys(coursesToSchedule).length === 0) {
      return res.status(400).json({ error: 'No valid courses selected.' });
  }
  const allSchedules = generateSchedules(coursesToSchedule);
  if (allSchedules.length > 0) {
      const scores = allSchedules.map(s => scoreSchedule(s, preferences));
      const minScore = Math.min(...scores);
      const bestSchedules = allSchedules.filter((s, i) => scores[i] === minScore);
      res.json(bestSchedules);
  } else {
      res.json([]);
  }
  \<close>
  The catalog \<open>sectionsByCourse\<close> is only looked up, so it is a map; an array is truthy
  also when empty, so the test of the first loop is that the code is a key.
  \<open>Math_min\<close> is \<^verbatim>\<open>Math.min\<close> on a list that is not empty. \<open>bestSchedules\<close>
  is the last \<^verbatim>\<open>if\<close>, \<open>generate_schedules_handler\<close> the handler from
  \<open>sectionsByCourse\<close> on.
\<close>

definition Math_min :: "int list \<Rightarrow> int" where
  "Math_min scores = fold min (tl scores) (hd scores)"

definition bestSchedules :: "schedule list \<Rightarrow> prefs \<Rightarrow> schedule list" where
  "bestSchedules allSchedules preferences =
     (if length allSchedules > 0 then
        (let scores = map (\<lambda>s. scoreSchedule s preferences) allSchedules;
             minScore = Math_min scores
         in map fst (filter (\<lambda>(s, i). scores ! i = minScore)
                       (zip allSchedules [0..<length allSchedules])))
      else [])"

definition coursesToSchedule ::
  "(string \<rightharpoonup> Section list) \<Rightarrow> string list \<Rightarrow> (string \<times> Section list) list" where
  "coursesToSchedule sectionsByCourse selectedCourses =
     fold (\<lambda>c acc. case sectionsByCourse c of None \<Rightarrow> acc | Some secs \<Rightarrow> AList.update c secs acc)
       selectedCourses []"

datatype response = Status400 | Json "schedule list"

definition generate_schedules_handler ::
  "(string \<rightharpoonup> Section list) \<Rightarrow> string list \<Rightarrow> prefs \<Rightarrow> response option" where
  "generate_schedules_handler sectionsByCourse selectedCourses preferences =
     (let cts = coursesToSchedule sectionsByCourse selectedCourses in
      if length (map fst cts) = 0 then Some Status400
      else (case generateSchedules cts of
              None \<Rightarrow> None
            | Some allSchedules \<Rightarrow> Some (Json (bestSchedules allSchedules preferences))))"

text \<open>
  Frontend, in \<^verbatim>\<open>handleGenerateSchedules\<close> of the dashboard:
  \<^verbatim>\<open>
  if (schedules.length > 0) {
      const scored = schedules.map(s => ({ schedule: s, score: scoreSchedule(s, prefs) }));
      scored.sort((a, b) => a.score - b.score);
      const minScore = scored[0].score;
      const best = scored.filter(s => s.score === minScore).map(s => s.schedule);
      setBestSchedules(best);
  } else {
      setBestSchedules([]);
  }
  \<close>
  \<open>bestSchedules_fe\<close> is the list given to \<^verbatim>\<open>setBestSchedules\<close>.
\<close>

definition bestSchedules_fe :: "schedule list \<Rightarrow> prefs_fe \<Rightarrow> schedule list" where
  "bestSchedules_fe schedules p =
     (if length schedules > 0 then
        (let scored = map (\<lambda>s. (s, scoreSchedule_fe s p)) schedules;
             scored = js_sort (\<lambda>a b. Fin (of_int (snd a - snd b))) scored;
             minScore = snd (scored ! 0)
         in map fst (filter (\<lambda>s. snd s = minScore) scored))
      else [])"

section \<open>Notions used in the statements\<close>

text \<open>
  \<open>pair_at pool i j\<close> is the array that \<^verbatim>\<open>combinations(pool, 2)\<close> yields for the
  positions \<open>i\<close> and \<open>j\<close>. A combination has a pair conflict when the sections at two
  of its positions, the smaller position first, conflict.
\<close>

definition pair_at :: "'a list \<Rightarrow> nat \<Rightarrow> nat \<Rightarrow> 'a option list" where
  "pair_at pool i j = [Some (pool ! i), Some (pool ! j)]"

definition pair_conflict :: "schedule \<Rightarrow> bool" where
  "pair_conflict c = (\<exists>i j. i < j \<and> j < length c \<and> conflictsWith (c ! i) (c ! j))"

text \<open>
  A small catalog for the concrete instances: two sections of CS101, on Monday and on
  Tuesday from 10 to 11, and one section of MA201 on Monday from 10:30 to 11:30.
\<close>

definition slot :: "char \<Rightarrow> rat \<Rightarrow> rat \<Rightarrow> timeslot" where
  "slot d s e = \<lparr>day = d, startTime = Fin s, endTime = Fin e\<rparr>"

definition cs101_01 :: Section where
  "cs101_01 = \<lparr>course_code = ''CS101'', section_id = ''CS101-01'', timeslots = [slot CHR ''M'' 10 11]\<rparr>"

definition cs101_02 :: Section where
  "cs101_02 = \<lparr>course_code = ''CS101'', section_id = ''CS101-02'', timeslots = [slot CHR ''T'' 10 11]\<rparr>"

definition ma201_01 :: Section where
  "ma201_01 = \<lparr>course_code = ''MA201'', section_id = ''MA201-01'',
      timeslots = [slot CHR ''M'' (21 / 2) (23 / 2)]\<rparr>"


text \<open>
  A section that meets on Monday from 11 to 12 and on Friday from 8 to 9, and
  preferences with every flag set, for the backend and for the frontend.
\<close>

definition friday_lab :: Section where
  "friday_lab = \<lparr>course_code = ''PH110'', section_id = ''PH110-01'',
      timeslots = [slot CHR ''M'' 11 12, slot CHR ''F'' 8 9]\<rparr>"

definition all_prefs :: prefs where
  "all_prefs = \<lparr>no_before = True, before_cutoff = Fin 9, no_after = True, after_cutoff = Fin 17,
      avoid_friday = True, avoid_back_to_back = True, minimize_days = True\<rparr>"

definition all_prefs_fe :: prefs_fe where
  "all_prefs_fe = \<lparr>noBefore = True, beforeTime = ''09:00'', noAfter = True, afterTime = ''17:00'',
      avoidFriday = True, avoidB2B = True, minimizeDays = True\<rparr>"

text \<open>
  The back-to-back count in the words of the specification: for each day of the
  schedule, the timeslots of that day sorted by start time, and the number of adjacent
  pairs whose gap, the start of the later one minus the end of the earlier one, is
  below \<open>1.5 / 60\<close> hours; summed over the days. \<open>the_fin\<close> reads a number that is
  not \<open>NaN\<close>. \<open>slots_of\<close> and \<open>bounds\<close> relate the dictionary of
  \<^verbatim>\<open>countBackToBack\<close> to the timeslots.
\<close>

definition the_fin :: "jsnum \<Rightarrow> rat" where
  "the_fin x = (case x of NaN \<Rightarrow> 0 | Fin q \<Rightarrow> q)"

definition adjacent_hits :: "timeslot list \<Rightarrow> int" where
  "adjacent_hits ordered =
     int (length (filter (\<lambda>(previous, current).
                            js_lt (js_sub (startTime current) (endTime previous)) (Fin (3 / 2 / 60)))
                    (zip ordered (tl ordered))))"

definition backToBack_spec :: "schedule \<Rightarrow> int" where
  "backToBack_spec schedule =
     (\<Sum>d \<in> day ` set (flat_timeslots schedule).
        adjacent_hits (sort_key (\<lambda>ts. the_fin (startTime ts))
                         (filter (\<lambda>ts. day ts = d) (flat_timeslots schedule))))"

definition slots_of :: "(char \<times> (jsnum \<times> jsnum) list) list \<Rightarrow> char \<Rightarrow> (jsnum \<times> jsnum) list" where
  "slots_of al d = (case map_of al d of None \<Rightarrow> [] | Some slots \<Rightarrow> slots)"

definition bounds :: "timeslot \<Rightarrow> jsnum \<times> jsnum" where
  "bounds ts = (startTime ts, endTime ts)"

text \<open>
  Preferences with only the back-to-back flag set, and a section with one Monday
  meeting.
\<close>

definition b2b_only :: prefs where
  "b2b_only = \<lparr>no_before = False, before_cutoff = Fin 9, no_after = False, after_cutoff = Fin 17,
      avoid_friday = False, avoid_back_to_back = True, minimize_days = False\<rparr>"

definition monday_class :: "string \<Rightarrow> rat \<Rightarrow> rat \<Rightarrow> Section" where
  "monday_class c s e = \<lparr>course_code = c, section_id = c @ ''-01'', timeslots = [slot CHR ''M'' s e]\<rparr>"

section \<open>Properties of the conflict detector\<close>

lemma conflicts_inner_iff: "conflicts_inner t1 ts \<longleftrightarrow> (\<exists>t2 \<in> set ts. overlaps t1 t2)"
  by (induction ts) auto

lemma conflicts_outer_iff:
  "conflicts_outer ts other \<longleftrightarrow> (\<exists>t1 \<in> set ts. \<exists>t2 \<in> set other. overlaps t1 t2)"
  by (induction ts) (auto simp: conflicts_inner_iff)

lemma overlaps_sym: "overlaps t1 t2 \<longleftrightarrow> overlaps t2 t1"
  by (auto simp: overlaps_def)

lemma conflictsWith_sym: "conflictsWith a b \<longleftrightarrow> conflictsWith b a"
  unfolding conflictsWith_def conflicts_outer_iff using overlaps_sym by blast

lemma js_gt_irrefl: "\<not> js_gt x x"
  by (cases x) auto

text \<open>
  Claim C3. Two sections conflict exactly when some timeslot of the first and some
  timeslot of the second have the same day, the first ends after the second starts and
  the second ends after the first starts. A timeslot that ends exactly when another one
  of the same day starts does not overlap it, so two sections made of such a pair do
  not conflict.
\<close>

theorem conflictsWith_contract:
  "(conflictsWith a b \<longleftrightarrow>
      (\<exists>t1 \<in> set (timeslots a). \<exists>t2 \<in> set (timeslots b).
         day t1 = day t2 \<and> js_gt (endTime t1) (startTime t2) \<and> js_gt (endTime t2) (startTime t1)))
   \<and> (timeslots a = [u] \<and> timeslots b = [v] \<and> day u = day v \<and> endTime u = startTime v
        \<longrightarrow> \<not> conflictsWith a b)"
proof
  show "conflictsWith a b \<longleftrightarrow>
      (\<exists>t1 \<in> set (timeslots a). \<exists>t2 \<in> set (timeslots b).
         day t1 = day t2 \<and> js_gt (endTime t1) (startTime t2) \<and> js_gt (endTime t2) (startTime t1))"
    by (simp add: conflictsWith_def conflicts_outer_iff overlaps_def)
  show "timeslots a = [u] \<and> timeslots b = [v] \<and> day u = day v \<and> endTime u = startTime v
        \<longrightarrow> \<not> conflictsWith a b"
    by (simp add: conflictsWith_def overlaps_def js_gt_irrefl)
qed

theorem conflictsWith_contract_witness:
  "conflictsWith
     \<lparr>course_code = ''CS101'', section_id = ''CS101-01'',
        timeslots = [\<lparr>day = CHR ''M'', startTime = Fin 10, endTime = Fin 11\<rparr>]\<rparr>
     \<lparr>course_code = ''MA201'', section_id = ''MA201-01'',
        timeslots = [\<lparr>day = CHR ''M'', startTime = Fin (21 / 2), endTime = Fin (23 / 2)\<rparr>]\<rparr>
   \<and> \<not> conflictsWith
     \<lparr>course_code = ''CS101'', section_id = ''CS101-01'',
        timeslots = [\<lparr>day = CHR ''M'', startTime = Fin 10, endTime = Fin 11\<rparr>]\<rparr>
     \<lparr>course_code = ''MA201'', section_id = ''MA201-02'',
        timeslots = [\<lparr>day = CHR ''M'', startTime = Fin 11, endTime = Fin 12\<rparr>]\<rparr>"
  using
    conflictsWith_contract
      [of "\<lparr>course_code = ''CS101'', section_id = ''CS101-01'',
             timeslots = [\<lparr>day = CHR ''M'', startTime = Fin 10, endTime = Fin 11\<rparr>]\<rparr>"
          "\<lparr>course_code = ''MA201'', section_id = ''MA201-01'',
             timeslots = [\<lparr>day = CHR ''M'', startTime = Fin (21 / 2), endTime = Fin (23 / 2)\<rparr>]\<rparr>"]
    conflictsWith_contract
      [of "\<lparr>course_code = ''CS101'', section_id = ''CS101-01'',
             timeslots = [\<lparr>day = CHR ''M'', startTime = Fin 10, endTime = Fin 11\<rparr>]\<rparr>"
          "\<lparr>course_code = ''MA201'', section_id = ''MA201-02'',
             timeslots = [\<lparr>day = CHR ''M'', startTime = Fin 11, endTime = Fin 12\<rparr>]\<rparr>"
          "\<lparr>day = CHR ''M'', startTime = Fin 10, endTime = Fin 11\<rparr>"
          "\<lparr>day = CHR ''M'', startTime = Fin 11, endTime = Fin 12\<rparr>"]
  by simp

section \<open>Properties of the combination generator\<close>

subsection \<open>The pairs of \<^verbatim>\<open>combinations(c, 2)\<close>\<close>

lemma find_index_two:
  "2 \<le> n \<Longrightarrow> find_index [a, b] n 2 2 =
     (if b = n - 1 then (if a = n - 2 then None else Some 0) else Some 1)"
  by (auto simp: numeral_2_eq_2)

lemma advance_two_1: "advance [a, b] (Suc 0) 2 = [a, Suc b]"
  by (simp add: advance_def numeral_2_eq_2)

lemma advance_two_0: "advance [a, b] 0 2 = [Suc a, Suc (Suc a)]"
  by (simp add: advance_def numeral_2_eq_2)

lemma pick_two: "a < length pool \<Longrightarrow> b < length pool \<Longrightarrow> pick pool [a, b] = pair_at pool a b"
  by (simp add: pick_def pair_at_def)

lemma combinations_loop_two:
  assumes "a < b" "b < length pool"
  shows "\<exists>ps. combinations_loop pool 2 [a, b] = Some ps \<and>
           set ps = {pair_at pool i j | i j. i < j \<and> j < length pool \<and> (a < i \<or> (a = i \<and> b < j))}"
  using assms
proof (induction "(length pool - a) * length pool + (length pool - b)" arbitrary: a b rule: less_induct)
  case less
  let ?n = "length pool"
  have n2: "2 \<le> ?n" using less.prems by simp
  show ?case
  proof (cases "b = ?n - 1")
    case False
    then have b': "Suc b < ?n" using less.prems by simp
    have "(?n - a) * ?n + (?n - Suc b) < (?n - a) * ?n + (?n - b)" using b' by simp
    from less.hyps[OF this _ b'] less.prems
    obtain ps where ps: "combinations_loop pool 2 [a, Suc b] = Some ps"
      "set ps = {pair_at pool i j | i j. i < j \<and> j < ?n \<and> (a < i \<or> (a = i \<and> Suc b < j))}"
      by auto
    have pk: "pick pool [a, Suc b] = pair_at pool a (Suc b)"
      using b' less.prems by (intro pick_two) auto
    have "combinations_loop pool 2 [a, b] = Some (pair_at pool a (Suc b) # ps)"
      using False ps(1)
      by (subst combinations_loop.simps) (simp add: find_index_two[OF n2] advance_two_1 pk)
    moreover have "set (pair_at pool a (Suc b) # ps) =
        {pair_at pool i j | i j. i < j \<and> j < ?n \<and> (a < i \<or> (a = i \<and> b < j))}"
    proof -
      have "\<And>i j. i < j \<and> j < ?n \<and> (a < i \<or> (a = i \<and> b < j)) \<longleftrightarrow>
              (i = a \<and> j = Suc b) \<or> (i < j \<and> j < ?n \<and> (a < i \<or> (a = i \<and> Suc b < j)))"
        using b' less.prems by auto
      then show ?thesis using ps(2) by auto
    qed
    ultimately show ?thesis by blast
  next
    case True
    show ?thesis
    proof (cases "a = ?n - 2")
      case True
      have "combinations_loop pool 2 [a, b] = Some []"
        using True \<open>b = ?n - 1\<close>
        by (subst combinations_loop.simps) (simp add: find_index_two[OF n2])
      moreover have "{pair_at pool i j | i j. i < j \<and> j < ?n \<and> (a < i \<or> (a = i \<and> b < j))} = {}"
        using True \<open>b = ?n - 1\<close> by auto
      ultimately show ?thesis by simp
    next
      case False
      then have a': "Suc (Suc a) < ?n" using less.prems True by simp
      have "(?n - Suc a) * ?n + (?n - Suc (Suc a)) < (?n - a) * ?n + (?n - b)"
      proof -
        have "(?n - a) * ?n = (?n - Suc a) * ?n + ?n" using a'
          by (metis Suc_diff_Suc Suc_lessD mult_Suc add.commute)
        then show ?thesis using a' by simp
      qed
      from less.hyps[OF this _ a']
      obtain ps where ps: "combinations_loop pool 2 [Suc a, Suc (Suc a)] = Some ps"
        "set ps = {pair_at pool i j | i j. i < j \<and> j < ?n \<and> (Suc a < i \<or> (Suc a = i \<and> Suc (Suc a) < j))}"
        by auto
      have pk: "pick pool [Suc a, Suc (Suc a)] = pair_at pool (Suc a) (Suc (Suc a))"
        using a' by (intro pick_two) auto
      have "combinations_loop pool 2 [a, b] = Some (pair_at pool (Suc a) (Suc (Suc a)) # ps)"
        using False True ps(1)
        by (subst combinations_loop.simps) (simp add: find_index_two[OF n2] advance_two_0 pk)
      moreover have "set (pair_at pool (Suc a) (Suc (Suc a)) # ps) =
        {pair_at pool i j | i j. i < j \<and> j < ?n \<and> (a < i \<or> (a = i \<and> b < j))}"
      proof -
        have "\<And>i j. i < j \<and> j < ?n \<and> (a < i \<or> (a = i \<and> b < j)) \<longleftrightarrow>
              (i = Suc a \<and> j = Suc (Suc a)) \<or> (i < j \<and> j < ?n \<and> (Suc a < i \<or> (Suc a = i \<and> Suc (Suc a) < j)))"
          using True a' by auto
        then show ?thesis using ps(2) by auto
      qed
      ultimately show ?thesis by blast
    qed
  qed
qed

lemma combinations_two:
  "\<exists>ps. combinations pool 2 = Some ps \<and>
        set ps = {pair_at pool i j | i j. i < j \<and> j < length pool}"
proof (cases "2 > length pool")
  case True
  then have "{pair_at pool i j | i j. i < j \<and> j < length pool} = {}" by auto
  then show ?thesis using True by (simp add: combinations_def)
next
  case False
  then have n: "0 < (1::nat)" "1 < length pool" by auto
  from combinations_loop_two[OF n] obtain ps where
    ps: "combinations_loop pool 2 [0, 1] = Some ps"
    "set ps = {pair_at pool i j | i j. i < j \<and> j < length pool \<and> (0 < i \<or> (0 = i \<and> 1 < j))}"
    by auto
  have upt2: "[0..<2] = [0, 1]" by (simp add: upt_rec numeral_2_eq_2)
  have pk: "pick pool [0, 1] = pair_at pool 0 1"
    using n by (intro pick_two) auto
  have "combinations pool 2 = Some (pair_at pool 0 1 # ps)"
    using False ps(1) by (simp add: combinations_def upt2 pk del: One_nat_def)
  moreover have "set (pair_at pool 0 1 # ps) = {pair_at pool i j | i j. i < j \<and> j < length pool}"
  proof -
    have "\<And>i j. i < j \<and> j < length pool \<longleftrightarrow>
        (i = 0 \<and> j = 1) \<or> (i < j \<and> j < length pool \<and> (0 < i \<or> (0 = i \<and> 1 < j)))"
      using n by auto
    then show ?thesis using ps(2) by auto
  qed
  ultimately show ?thesis by blast
qed


lemma hasConflict_pairs:
  assumes "\<forall>p \<in> set ps. \<exists>i j. p = pair_at pool i j"
  shows "hasConflict ps =
     Some (\<exists>p \<in> set ps. \<exists>i j. p = pair_at pool i j \<and> conflictsWith (pool ! i) (pool ! j))"
  using assms
proof (induction ps)
  case Nil
  then show ?case by simp
next
  case (Cons p ps)
  then obtain i j where p: "p = pair_at pool i j" by auto
  have ih: "hasConflict ps =
     Some (\<exists>p \<in> set ps. \<exists>i j. p = pair_at pool i j \<and> conflictsWith (pool ! i) (pool ! j))"
    using Cons by simp
  have call: "call_conflictsWith (js_index p 0) (js_index p 1) = Some (conflictsWith (pool ! i) (pool ! j))"
    by (simp add: p pair_at_def js_index_def)
  have here: "(\<exists>i' j'. p = pair_at pool i' j' \<and> conflictsWith (pool ! i') (pool ! j'))
      \<longleftrightarrow> conflictsWith (pool ! i) (pool ! j)"
    by (auto simp: p pair_at_def)
  show ?case
  proof (cases "conflictsWith (pool ! i) (pool ! j)")
    case True
    then show ?thesis using call by (simp add: here)
  next
    case False
    then show ?thesis using call by (simp add: here ih)
  qed
qed

lemma hasConflict_combinations:
  "\<exists>ps. combinations c 2 = Some ps \<and> hasConflict ps = Some (pair_conflict c)"
proof -
  from combinations_two[of c] obtain ps where
    ps: "combinations c 2 = Some ps"
    "set ps = {pair_at c i j | i j. i < j \<and> j < length c}"
    by blast
  have all: "\<forall>p \<in> set ps. \<exists>i j. p = pair_at c i j" using ps(2) by auto
  have "(\<exists>p \<in> set ps. \<exists>i j. p = pair_at c i j \<and> conflictsWith (c ! i) (c ! j)) \<longleftrightarrow> pair_conflict c"
  proof
    assume "\<exists>p \<in> set ps. \<exists>i j. p = pair_at c i j \<and> conflictsWith (c ! i) (c ! j)"
    then obtain p i j where pij: "p \<in> set ps" "p = pair_at c i j" "conflictsWith (c ! i) (c ! j)"
      by blast
    from pij(1) ps(2) obtain i' j' where ij': "p = pair_at c i' j'" "i' < j'" "j' < length c"
      by auto
    from pij(2) ij'(1) have "c ! i = c ! i'" "c ! j = c ! j'" by (simp_all add: pair_at_def)
    with pij(3) ij' show "pair_conflict c" unfolding pair_conflict_def by metis
  next
    assume "pair_conflict c"
    then obtain i j where "i < j" "j < length c" "conflictsWith (c ! i) (c ! j)"
      unfolding pair_conflict_def by blast
    then show "\<exists>p \<in> set ps. \<exists>i j. p = pair_at c i j \<and> conflictsWith (c ! i) (c ! j)"
      using ps(2) by blast
  qed
  then show ?thesis using ps(1) hasConflict_pairs[OF all] by simp
qed

lemma validSchedules_filter:
  "validSchedules combos = Some (filter (\<lambda>c. \<not> pair_conflict c) combos)"
proof (induction combos)
  case Nil
  then show ?case by simp
next
  case (Cons c combos)
  from hasConflict_combinations[of c] obtain ps where
    "combinations c 2 = Some ps" "hasConflict ps = Some (pair_conflict c)" by blast
  then show ?case using Cons by simp
qed

lemma generateSchedules_filter:
  "generateSchedules courses = Some (filter (\<lambda>c. \<not> pair_conflict c) (product_be (map snd courses)))"
  by (simp add: generateSchedules_def validSchedules_filter)

lemma hasConflict_fe_iff: "hasConflict_fe combo \<longleftrightarrow> pair_conflict combo"
proof
  assume "hasConflict_fe combo"
  then obtain i j where "i < length combo" "i + 1 \<le> j" "j < length combo"
    "conflictsWith (combo ! i) (combo ! j)"
    unfolding hasConflict_fe_def list_ex_iff by auto
  then show "pair_conflict combo" unfolding pair_conflict_def
    by (intro exI[of _ i] exI[of _ j]) simp
next
  assume "pair_conflict combo"
  then obtain i j where ij: "i < j" "j < length combo" "conflictsWith (combo ! i) (combo ! j)"
    unfolding pair_conflict_def by blast
  then have "i \<in> set [0..<length combo]" "j \<in> set [i + 1..<length combo]" by simp_all
  then show "hasConflict_fe combo" unfolding hasConflict_fe_def list_ex_iff using ij(3) by blast
qed

lemma no_pair_conflict_unordered:
  assumes "\<not> pair_conflict c" "i < length c" "j < length c" "i \<noteq> j"
  shows "\<not> conflictsWith (c ! i) (c ! j)"
proof (cases "i < j")
  case True
  then show ?thesis using assms unfolding pair_conflict_def by blast
next
  case False
  then have "j < i" using assms(4) by simp
  then have "\<not> conflictsWith (c ! j) (c ! i)" using assms unfolding pair_conflict_def by blast
  then show ?thesis using conflictsWith_sym by blast
qed

lemma keys_update: "set (map fst (AList.update k v al)) = insert k (set (map fst al))"
  by (auto simp: update_keys)

lemma push_all_total:
  "\<forall>s \<in> set ss. course_code s \<in> set (map fst courses) \<Longrightarrow>
     \<exists>courses'. push_all ss courses = Some courses'"
proof (induction ss arbitrary: courses)
  case Nil
  then show ?case by simp
next
  case (Cons s ss)
  then have k: "course_code s \<in> set (map fst courses)" by simp
  then obtain secs where secs: "map_of courses (course_code s) = Some secs"
    by (metis map_of_eq_None_iff not_Some_eq set_map)
  have "set (map fst (AList.update (course_code s) (secs @ [s]) courses)) = set (map fst courses)"
    unfolding keys_update using k by blast
  then have "\<forall>s' \<in> set ss. course_code s' \<in> set (map fst (AList.update (course_code s) (secs @ [s]) courses))"
    using Cons.prems by simp
  from Cons.IH[OF this] show ?case using secs by simp
qed

lemma init_courses_keys:
  "set (map fst (fold (\<lambda>c courses. AList.update c [] courses) sel acc)) = set sel \<union> set (map fst acc)"
proof (induction sel arbitrary: acc)
  case Nil
  then show ?case by simp
next
  case (Cons c sel)
  show ?case using Cons.IH[of "AList.update c [] acc"] by (simp add: keys_update del: set_map)
qed

text \<open>
  Claim C1. The backend generator returns, and every schedule it returns has no two
  positions whose sections conflict, in either order. The frontend generator, given
  sections of selected courses only, returns as well, with the same property.
\<close>

theorem generateSchedules_conflict_free:
  "(\<exists>out. generateSchedules courses = Some out \<and>
       (\<forall>sched \<in> set out. \<forall>i j. i < length sched \<and> j < length sched \<and> i \<noteq> j
           \<longrightarrow> \<not> conflictsWith (sched ! i) (sched ! j)))
   \<and> ((\<forall>s \<in> set sections. course_code s \<in> set selectedCourseCodes) \<longrightarrow>
       (\<exists>out. generateSchedules_fe sections selectedCourseCodes = Some out \<and>
          (\<forall>sched \<in> set out. \<forall>i j. i < length sched \<and> j < length sched \<and> i \<noteq> j
             \<longrightarrow> \<not> conflictsWith (sched ! i) (sched ! j))))"
proof (intro conjI impI)
  show "\<exists>out. generateSchedules courses = Some out \<and>
       (\<forall>sched \<in> set out. \<forall>i j. i < length sched \<and> j < length sched \<and> i \<noteq> j
           \<longrightarrow> \<not> conflictsWith (sched ! i) (sched ! j))"
    using no_pair_conflict_unordered by (simp add: generateSchedules_filter)
next
  assume sel: "\<forall>s \<in> set sections. course_code s \<in> set selectedCourseCodes"
  let ?init = "fold (\<lambda>c courses. AList.update c ([] :: Section list) courses) selectedCourseCodes []"
  have keys: "set (map fst ?init) = set selectedCourseCodes"
    using init_courses_keys[of selectedCourseCodes "[]"] by simp
  have "\<forall>s \<in> set sections. course_code s \<in> set (map fst ?init)"
    unfolding keys using sel by blast
  from push_all_total[OF this] obtain courses' where
    c': "push_all sections ?init = Some courses'" by blast
  define groups where "groups = filter (\<lambda>group. length group > 0) (map snd courses')"
  have out: "generateSchedules_fe sections selectedCourseCodes =
      Some (if length groups \<noteq> length selectedCourseCodes then []
            else filter (\<lambda>combo. \<not> pair_conflict combo) (product_fe groups))"
    by (simp add: generateSchedules_fe_def c' Let_def hasConflict_fe_iff groups_def)
  have "\<forall>sched \<in> set (if length groups \<noteq> length selectedCourseCodes then []
            else filter (\<lambda>combo. \<not> pair_conflict combo) (product_fe groups)).
          \<forall>i j. i < length sched \<and> j < length sched \<and> i \<noteq> j
             \<longrightarrow> \<not> conflictsWith (sched ! i) (sched ! j)"
    using no_pair_conflict_unordered by (simp split: if_splits)
  with out show "\<exists>out. generateSchedules_fe sections selectedCourseCodes = Some out \<and>
          (\<forall>sched \<in> set out. \<forall>i j. i < length sched \<and> j < length sched \<and> i \<noteq> j
             \<longrightarrow> \<not> conflictsWith (sched ! i) (sched ! j))"
    by blast
qed

text \<open>
  An instance: of the two pairings of a CS101 section with the MA201 section, both
  generators keep the one that does not overlap on Monday.
\<close>

theorem generateSchedules_conflict_free_witness:
  "generateSchedules [(''CS101'', [cs101_01, cs101_02]), (''MA201'', [ma201_01])]
      = Some [[cs101_02, ma201_01]]
   \<and> generateSchedules_fe [cs101_01, cs101_02, ma201_01] [''CS101'', ''MA201'']
      = Some [[cs101_02, ma201_01]]
   \<and> \<not> conflictsWith cs101_02 ma201_01 \<and> \<not> conflictsWith ma201_01 cs101_02"
proof -
  have be: "generateSchedules [(''CS101'', [cs101_01, cs101_02]), (''MA201'', [ma201_01])]
      = Some [[cs101_02, ma201_01]]"
    by code_simp
  have fe: "generateSchedules_fe [cs101_01, cs101_02, ma201_01] [''CS101'', ''MA201'']
      = Some [[cs101_02, ma201_01]]"
    by code_simp
  have sel: "\<forall>s \<in> set [cs101_01, cs101_02, ma201_01]. course_code s \<in> set [''CS101'', ''MA201'']"
    by (simp add: cs101_01_def cs101_02_def ma201_01_def)
  note inst = generateSchedules_conflict_free
    [of "[(''CS101'', [cs101_01, cs101_02]), (''MA201'', [ma201_01])]"
        "[cs101_01, cs101_02, ma201_01]" "[''CS101'', ''MA201'']"]
  from inst be sel fe have
    "\<forall>i j. i < length [cs101_02, ma201_01] \<and> j < length [cs101_02, ma201_01] \<and> i \<noteq> j
       \<longrightarrow> \<not> conflictsWith ([cs101_02, ma201_01] ! i) ([cs101_02, ma201_01] ! j)"
    by simp
  from this[rule_format, of 0 1] this[rule_format, of 1 0]
  have "\<not> conflictsWith cs101_02 ma201_01" "\<not> conflictsWith ma201_01 cs101_02" by simp_all
  with be fe show ?thesis by simp
qed

text \<open>
  Claim C10. With no course at all the product is the list holding the empty
  combination, \<^verbatim>\<open>combinations\<close> yields no pair for it, and the backend generator
  returns the list with the empty schedule, not the empty list. The handler does not
  reach the generator with an empty selection: it answers with the error status.
\<close>

theorem generateSchedules_empty:
  "product_be ([] :: Section list list) = [[]]
   \<and> combinations ([] :: Section list) 2 = Some []
   \<and> generateSchedules [] = Some [[]]
   \<and> generate_schedules_handler m [] p = Some Status400"
  by (simp add: generateSchedules_def combinations_def generate_schedules_handler_def
      coursesToSchedule_def)

subsection \<open>Length and origin of the generated schedules\<close>













subsection \<open>Selected courses without sections\<close>













section \<open>Properties of the preference scorer\<close>





lemma fold_flat:
  "fold (\<lambda>sec acc. fold f (timeslots sec) acc) schedule acc = fold f (flat_timeslots schedule) acc"
  by (induction schedule arbitrary: acc) (simp_all add: flat_timeslots_def)





lemma count_adjacent_ge: "n \<le> count_adjacent slots n"
proof (induction slots n rule: count_adjacent.induct)
  case (1 previous current rest backToBackCount)
  then show ?case by (simp split: if_splits)
qed simp_all

lemma fold_days_ge:
  "(\<And>d slots n. n \<le> f (d, slots) n) \<Longrightarrow> n \<le> fold f (al :: (char \<times> (jsnum \<times> jsnum) list) list) (n :: int)"
proof (induction al arbitrary: n)
  case Nil
  then show ?case by simp
next
  case (Cons a al)
  obtain d slots where a: "a = (d, slots)" by (cases a)
  have "n \<le> f a n" using Cons.prems a by simp
  also have "\<dots> \<le> fold f al (f a n)" using Cons.IH Cons.prems by simp
  finally show ?case by simp
qed


lemma countBackToBack_fe_nonneg: "0 \<le> countBackToBack_fe schedule"
  unfolding countBackToBack_fe_def
  by (rule fold_days_ge) (simp add: count_adjacent_ge)

lemma js_sort_length: "length (js_sort cmp xs) = length xs"
proof -
  have ins: "length (insert_sorted cmp x ys) = Suc (length ys)" for x ys
    by (induction ys) simp_all
  show ?thesis unfolding js_sort_def by (induction xs) (simp_all add: ins)
qed

lemma count_adjacent_short: "length slots < 2 \<Longrightarrow> count_adjacent slots n = n"
proof (cases slots)
  case Nil
  then show ?thesis by simp
next
  case (Cons a rest)
  assume "length slots < 2"
  then have "rest = []" using Cons by simp
  then show ?thesis using Cons by simp
qed

lemma countBackToBack_same: "countBackToBack_fe schedule = countBackToBack schedule"
proof -
  have step: "(\<lambda>(d, slots) backToBackCount.
             if length slots < 2 then backToBackCount
             else count_adjacent (js_sort (\<lambda>a b. js_sub (fst a) (fst b)) slots) backToBackCount)
      = (\<lambda>(d :: char, slots) b2bCount.
             count_adjacent (js_sort (\<lambda>a b. js_sub (fst a) (fst b)) slots) b2bCount)"
    by (auto simp: fun_eq_iff count_adjacent_short js_sort_length)
  show ?thesis
    unfolding countBackToBack_def countBackToBack_fe_def group_by_day_def step
    by (simp add: fold_flat)
qed



subsection \<open>The back-to-back count\<close>

lemma push_slot_slots:
  "slots_of (push_slot t al) d = slots_of al d @ (if day t = d then [bounds t] else [])"
  by (simp add: push_slot_def slots_of_def bounds_def update_conv' split: option.splits)

lemma push_slot_keys: "set (map fst (push_slot t al)) = insert (day t) (set (map fst al))"
  by (simp add: push_slot_def keys_update del: set_map split: option.splits)

lemma push_slot_distinct: "distinct (map fst al) \<Longrightarrow> distinct (map fst (push_slot t al))"
  by (simp add: push_slot_def distinct_update split: option.splits)

lemma fold_push_slot:
  "distinct (map fst al) \<Longrightarrow>
     distinct (map fst (fold push_slot ts al))
     \<and> set (map fst (fold push_slot ts al)) = day ` set ts \<union> set (map fst al)
     \<and> (\<forall>d. slots_of (fold push_slot ts al) d
              = slots_of al d @ map bounds (filter (\<lambda>t. day t = d) ts))"
proof (induction ts arbitrary: al)
  case Nil
  then show ?case by simp
next
  case (Cons t ts)
  have d: "distinct (map fst (push_slot t al))" using Cons.prems by (rule push_slot_distinct)
  from Cons.IH[OF d] show ?case
    by (auto simp: push_slot_keys push_slot_slots simp del: set_map)
qed

lemma count_adjacent_acc: "count_adjacent slots n = n + count_adjacent slots 0"
proof (induction slots arbitrary: n rule: induct_list012)
  case (3 previous current rest)
  have ih: "count_adjacent (current # rest) k = k + count_adjacent (current # rest) 0" for k
    using 3 by blast
  show ?case
  proof (cases "js_lt (js_sub (fst current) (snd previous)) MINIMUM_GAP_TOLERANCE")
    case True
    then show ?thesis using ih[of "n + 1"] ih[of 1] by simp
  next
    case False
    then show ?thesis using ih[of n] by simp
  qed
qed simp_all

lemma fold_days_sum:
  "fold (\<lambda>(d :: char, slots) b2bCount. count_adjacent (g slots) b2bCount) al n
     = n + sum_list (map (\<lambda>(d, slots). count_adjacent (g slots) 0) al)"
proof (induction al arbitrary: n)
  case Nil
  then show ?case by simp
next
  case (Cons a al)
  obtain d slots where a: "a = (d, slots)" by (cases a)
  show ?case using count_adjacent_acc[of "g slots" n] by (simp add: a Cons.IH)
qed

lemma distinct_alist_values:
  assumes "distinct (map fst al)"
  shows "map (\<lambda>(d, slots). h slots) al = map (\<lambda>d. h (slots_of al d)) (map fst al)"
proof -
  have "h slots = h (slots_of al d)" if "(d, slots) \<in> set al" for d slots
  proof -
    from that assms have "map_of al d = Some slots" by simp
    then show ?thesis by (simp add: slots_of_def)
  qed
  then show ?thesis by (auto simp: map_eq_conv)
qed

lemma insert_sorted_insort:
  assumes "startTime x \<noteq> NaN" "\<forall>y \<in> set ys. startTime y \<noteq> NaN"
  shows "insert_sorted (\<lambda>a b. js_sub (fst a) (fst b)) (bounds x) (map bounds ys)
       = map bounds (insort_key (\<lambda>ts. the_fin (startTime ts)) x ys)"
  using assms(2)
proof (induction ys)
  case Nil
  then show ?case by simp
next
  case (Cons y ys)
  from assms(1) obtain a where a: "startTime x = Fin a" by (cases "startTime x") auto
  from Cons.prems obtain b where b: "startTime y = Fin b" by (cases "startTime y") auto
  have ih: "insert_sorted (\<lambda>a b. js_sub (fst a) (fst b)) (bounds x) (map bounds ys)
       = map bounds (insort_key (\<lambda>ts. the_fin (startTime ts)) x ys)"
    using Cons by simp
  show ?case by (simp add: bounds_def[of x] bounds_def[of y] a b the_fin_def ih[unfolded bounds_def[of x] a] not_le)
qed


lemma js_sort_sort_key:
  assumes "\<forall>x \<in> set xs. startTime x \<noteq> NaN"
  shows "js_sort (\<lambda>a b. js_sub (fst a) (fst b)) (map bounds xs)
       = map bounds (sort_key (\<lambda>ts. the_fin (startTime ts)) xs)"
  using assms
proof (induction xs)
  case Nil
  then show ?case by (simp add: js_sort_def)
next
  case (Cons x xs)
  have ih: "js_sort (\<lambda>a b. js_sub (fst a) (fst b)) (map bounds xs)
       = map bounds (sort_key (\<lambda>ts. the_fin (startTime ts)) xs)"
    using Cons by simp
  have fin: "\<forall>y \<in> set (sort_key (\<lambda>ts. the_fin (startTime ts)) xs). startTime y \<noteq> NaN"
    using Cons.prems by simp
  have "js_sort (\<lambda>a b. js_sub (fst a) (fst b)) (map bounds (x # xs))
      = insert_sorted (\<lambda>a b. js_sub (fst a) (fst b)) (bounds x)
          (js_sort (\<lambda>a b. js_sub (fst a) (fst b)) (map bounds xs))"
    by (simp add: js_sort_def)
  also have "\<dots> = map bounds (insort_key (\<lambda>ts. the_fin (startTime ts)) x
                        (sort_key (\<lambda>ts. the_fin (startTime ts)) xs))"
    unfolding ih using Cons.prems fin by (intro insert_sorted_insort) simp_all
  finally show ?case by (simp add: sort_key_def)
qed

lemma count_adjacent_hits: "count_adjacent (map bounds ordered) 0 = adjacent_hits ordered"
proof (induction ordered rule: induct_list012)
  case 1
  then show ?case by (simp add: adjacent_hits_def)
next
  case (2 x)
  then show ?case by (simp add: adjacent_hits_def)
next
  case (3 previous current rest)
  have ih: "count_adjacent (map bounds (current # rest)) 0 = adjacent_hits (current # rest)"
    using 3 by blast
  have tol: "MINIMUM_GAP_TOLERANCE = Fin (3 / 2 / 60)"
    by (simp add: MINIMUM_GAP_TOLERANCE_def)
  have "count_adjacent (map bounds (previous # current # rest)) 0
      = (if js_lt (js_sub (startTime current) (endTime previous)) (Fin (3 / 2 / 60)) then 1 else 0)
        + count_adjacent (map bounds (current # rest)) 0"
    using count_adjacent_acc[of "bounds current # map bounds rest" 1]
    by (simp add: bounds_def[of previous] bounds_def[of current] tol)
  also have "\<dots> = adjacent_hits (previous # current # rest)"
    unfolding ih by (simp add: adjacent_hits_def)
  finally show ?case .
qed

lemma countBackToBack_by_day:
  assumes "\<forall>ts \<in> set (flat_timeslots schedule). startTime ts \<noteq> NaN"
  shows "countBackToBack schedule = backToBack_spec schedule"
proof -
  let ?flat = "flat_timeslots schedule"
  let ?G = "fold push_slot ?flat []"
  let ?cmp = "\<lambda>a b :: jsnum \<times> jsnum. js_sub (fst a) (fst b)"
  let ?k = "\<lambda>ts. the_fin (startTime ts)"
  from fold_push_slot[of "[]" ?flat] have
    dist: "distinct (map fst ?G)" and keys: "set (map fst ?G) = day ` set ?flat"
    and slots: "\<And>d. slots_of ?G d = map bounds (filter (\<lambda>t. day t = d) ?flat)"
    by (simp_all add: slots_of_def)
  have "countBackToBack schedule = countBackToBack_fe schedule"
    by (simp add: countBackToBack_same)
  also have "\<dots> = sum_list (map (\<lambda>(d, slots). count_adjacent (js_sort ?cmp slots) 0) ?G)"
    unfolding countBackToBack_fe_def using fold_days_sum[of "js_sort ?cmp" ?G 0] by simp
  also have "\<dots> = sum_list (map (\<lambda>d. count_adjacent (js_sort ?cmp (slots_of ?G d)) 0) (map fst ?G))"
    by (subst distinct_alist_values[OF dist, of "\<lambda>slots. count_adjacent (js_sort ?cmp slots) 0"])
      (rule refl)
  also have "\<dots> = (\<Sum>d \<in> set (map fst ?G). count_adjacent (js_sort ?cmp (slots_of ?G d)) 0)"
    using dist by (rule sum_list_distinct_conv_sum_set)
  also have "\<dots> = (\<Sum>d \<in> day ` set ?flat.
        count_adjacent (js_sort ?cmp (map bounds (filter (\<lambda>t. day t = d) ?flat))) 0)"
    unfolding keys slots ..
  also have "\<dots> = (\<Sum>d \<in> day ` set ?flat.
        adjacent_hits (sort_key ?k (filter (\<lambda>t. day t = d) ?flat)))"
  proof (rule sum.cong[OF refl])
    fix d
    have "\<forall>x \<in> set (filter (\<lambda>t. day t = d) ?flat). startTime x \<noteq> NaN" using assms by simp
    from js_sort_sort_key[OF this]
    show "count_adjacent (js_sort ?cmp (map bounds (filter (\<lambda>t. day t = d) ?flat))) 0
        = adjacent_hits (sort_key ?k (filter (\<lambda>t. day t = d) ?flat))"
      by (simp add: count_adjacent_hits)
  qed
  finally show ?thesis by (simp add: backToBack_spec_def)
qed

text \<open>
  Claim C9. When no start time is \<open>NaN\<close>, the back-to-back count is, for each day,
  the number of adjacent pairs of that day's timeslots sorted by start time whose gap
  is below \<open>1.5 / 60\<close> hours, summed over the days; with only the back-to-back flag
  set it is the score. Two Monday timeslots 10:00 to 11:00 and 11:00 to 12:00 score
  \<open>1\<close>; with a gap of 1.4 minutes the score is still \<open>1\<close>; with a gap of 2 minutes
  it is \<open>0\<close>.
\<close>

theorem countBackToBack_boundary:
  "((\<forall>ts \<in> set (flat_timeslots schedule). startTime ts \<noteq> NaN)
      \<longrightarrow> countBackToBack schedule = backToBack_spec schedule)
   \<and> scoreSchedule schedule b2b_only = countBackToBack schedule
   \<and> scoreSchedule [monday_class ''CS101'' 10 11, monday_class ''MA201'' 11 12] b2b_only = 1
   \<and> scoreSchedule [monday_class ''CS101'' 10 11, monday_class ''MA201'' (11 + (7 / 5) / 60) 12] b2b_only = 1
   \<and> scoreSchedule [monday_class ''CS101'' 10 11, monday_class ''MA201'' (11 + 2 / 60) 12] b2b_only = 0"
proof (intro conjI impI)
  assume "\<forall>ts \<in> set (flat_timeslots schedule). startTime ts \<noteq> NaN"
  then show "countBackToBack schedule = backToBack_spec schedule" by (rule countBackToBack_by_day)
next
  show "scoreSchedule schedule b2b_only = countBackToBack schedule"
    by (simp add: scoreSchedule_def b2b_only_def)
next
  show "scoreSchedule [monday_class ''CS101'' 10 11, monday_class ''MA201'' 11 12] b2b_only = 1"
    by code_simp
next
  show "scoreSchedule [monday_class ''CS101'' 10 11, monday_class ''MA201'' (11 + (7 / 5) / 60) 12] b2b_only = 1"
    by code_simp
next
  show "scoreSchedule [monday_class ''CS101'' 10 11, monday_class ''MA201'' (11 + 2 / 60) 12] b2b_only = 0"
    by code_simp
qed

theorem countBackToBack_boundary_witness:
  "countBackToBack [monday_class ''MA201'' 11 12, cs101_01, friday_lab, cs101_02]
     = backToBack_spec [monday_class ''MA201'' 11 12, cs101_01, friday_lab, cs101_02]
   \<and> countBackToBack [monday_class ''MA201'' 11 12, cs101_01, friday_lab, cs101_02] = 2"
proof -
  have fin: "\<forall>ts \<in> set (flat_timeslots [monday_class ''MA201'' 11 12, cs101_01, friday_lab, cs101_02]).
      startTime ts \<noteq> NaN"
    by (simp add: flat_timeslots_def monday_class_def cs101_01_def cs101_02_def friday_lab_def slot_def)
  have ev: "countBackToBack [monday_class ''MA201'' 11 12, cs101_01, friday_lab, cs101_02] = 2"
    by code_simp
  show ?thesis
    using countBackToBack_boundary[of "[monday_class ''MA201'' 11 12, cs101_01, friday_lab, cs101_02]"]
      fin ev by blast
qed

section \<open>Properties of the optimal selector\<close>

lemma Math_min_Min: "scores \<noteq> [] \<Longrightarrow> Math_min scores = Min (set scores)"
proof (cases scores)
  case Nil
  assume "scores \<noteq> []"
  then show ?thesis using Nil by simp
next
  case (Cons x rest)
  have "Math_min (x # rest) = fold min rest x" by (simp add: Math_min_def)
  also have "\<dots> = Min (set (x # rest))" by (simp only: Min.set_eq_fold)
  finally show ?thesis using Cons by simp
qed

lemma zip_index_mem:
  "(s, i) \<in> set (zip xs [0..<length xs]) \<Longrightarrow> i < length xs \<and> xs ! i = s"
  by (auto simp: in_set_zip)

lemma filter_by_index:
  "map fst (filter (\<lambda>(s, i). map f xs ! i = m) (zip xs [0..<length xs])) = filter (\<lambda>s. f s = m) xs"
proof -
  have "filter (\<lambda>(s, i). map f xs ! i = m) (zip xs [0..<length xs])
      = filter (\<lambda>(s, i). f s = m) (zip xs [0..<length xs])"
    by (rule filter_cong[OF refl]) (auto dest: zip_index_mem)
  also have "\<dots> = filter ((\<lambda>s. f s = m) \<circ> fst) (zip xs [0..<length xs])"
    by (simp add: comp_def case_prod_unfold)
  finally have a: "filter (\<lambda>(s, i). map f xs ! i = m) (zip xs [0..<length xs])
      = filter ((\<lambda>s. f s = m) \<circ> fst) (zip xs [0..<length xs])" .
  have "map fst (filter ((\<lambda>s. f s = m) \<circ> fst) (zip xs [0..<length xs]))
      = filter (\<lambda>s. f s = m) (map fst (zip xs [0..<length xs]))"
    by (simp only: filter_map)
  also have "\<dots> = filter (\<lambda>s. f s = m) xs" by simp
  finally show ?thesis by (simp only: a)
qed

lemma bestSchedules_filter:
  assumes "allSchedules \<noteq> []"
  shows "bestSchedules allSchedules p
     = filter (\<lambda>s. scoreSchedule s p = Min ((\<lambda>s. scoreSchedule s p) ` set allSchedules)) allSchedules"
proof -
  have "Math_min (map (\<lambda>s. scoreSchedule s p) allSchedules)
      = Min ((\<lambda>s. scoreSchedule s p) ` set allSchedules)"
    using assms by (simp add: Math_min_Min)
  then show ?thesis using assms
    by (simp add: bestSchedules_def Let_def filter_by_index)
qed

lemma insert_sorted_score:
  "insert_sorted (\<lambda>a b. Fin (of_int (snd a - snd b))) x ys = insort_key snd x (ys :: ('a \<times> int) list)"
  by (induction ys) (auto simp: not_le)

lemma js_sort_score:
  "js_sort (\<lambda>a b. Fin (of_int (snd a - snd b))) xs = sort_key snd (xs :: ('a \<times> int) list)"
proof (induction xs)
  case Nil
  then show ?case by (simp add: js_sort_def)
next
  case (Cons x xs)
  have "js_sort (\<lambda>a b. Fin (of_int (snd a - snd b))) (x # xs)
      = insert_sorted (\<lambda>a b. Fin (of_int (snd a - snd b))) x
          (js_sort (\<lambda>a b. Fin (of_int (snd a - snd b))) xs)"
    by (simp only: js_sort_def foldr.simps o_apply)
  also have "\<dots> = insort_key snd x (sort_key snd xs)"
    by (simp only: Cons.IH insert_sorted_score)
  also have "\<dots> = sort_key snd (x # xs)" by (simp add: sort_key_def)
  finally show ?case .
qed

lemma sorted_first_Min:
  assumes "sorted ys" "ys \<noteq> []"
  shows "ys ! 0 = Min (set (ys :: int list))"
proof -
  from assms(2) obtain y rest where ys: "ys = y # rest" by (cases ys) auto
  with assms(1) have "\<forall>z \<in> set ys. y \<le> z" by auto
  then have "Min (set ys) = y" using ys by (intro Min_eqI) auto
  then show ?thesis using ys by simp
qed

lemma bestSchedules_fe_filter:
  assumes "schedules \<noteq> []"
  shows "bestSchedules_fe schedules q
     = filter (\<lambda>s. scoreSchedule_fe s q = Min ((\<lambda>s. scoreSchedule_fe s q) ` set schedules)) schedules"
proof -
  let ?f = "\<lambda>s. scoreSchedule_fe s q"
  let ?scored = "map (\<lambda>s. (s, ?f s)) schedules"
  let ?sorted = "sort_key snd ?scored"
  have "length (map snd ?sorted) = length schedules" by simp
  then have ne: "map snd ?sorted \<noteq> []" using assms by (metis length_0_conv)
  have "snd (?sorted ! 0) = map snd ?sorted ! 0"
    using assms by (simp add: nth_map)
  also have "\<dots> = Min (set (map snd ?sorted))"
    by (rule sorted_first_Min[OF sorted_sort_key ne])
  also have "\<dots> = Min (?f ` set schedules)"
    by (simp add: image_image)
  finally have m: "snd (?sorted ! 0) = Min (?f ` set schedules)" .
  have "map fst (filter (\<lambda>s. snd s = Min (?f ` set schedules)) ?sorted)
      = map fst (filter (\<lambda>s. snd s = Min (?f ` set schedules)) ?scored)"
    by (simp only: sort_key_stable)
  also have "\<dots> = filter (\<lambda>s. ?f s = Min (?f ` set schedules)) schedules"
    by (simp add: filter_map comp_def)
  finally have f: "map fst (filter (\<lambda>s. snd s = Min (?f ` set schedules)) ?sorted)
      = filter (\<lambda>s. ?f s = Min (?f ` set schedules)) schedules" .
  have "bestSchedules_fe schedules q = map fst (filter (\<lambda>s. snd s = snd (?sorted ! 0)) ?sorted)"
    using assms unfolding bestSchedules_fe_def Let_def js_sort_score by simp
  then show ?thesis by (simp only: m f)
qed

text \<open>
  Claim C2. Of a list of schedules that is not empty the selector returns exactly the
  schedules whose score is the minimum of the scores over the list, in the order of
  the list; of the empty list it returns the empty list. This holds for the selection
  in the backend handler and for the one in the frontend dashboard, which sorts the
  scored schedules first.
\<close>

theorem bestSchedules_contract:
  "bestSchedules [] p = []
   \<and> (allSchedules \<noteq> [] \<longrightarrow>
        bestSchedules allSchedules p
          = filter (\<lambda>s. scoreSchedule s p = Min ((\<lambda>s. scoreSchedule s p) ` set allSchedules))
              allSchedules)
   \<and> bestSchedules_fe [] q = []
   \<and> (allSchedules \<noteq> [] \<longrightarrow>
        bestSchedules_fe allSchedules q
          = filter (\<lambda>s. scoreSchedule_fe s q = Min ((\<lambda>s. scoreSchedule_fe s q) ` set allSchedules))
              allSchedules)"
  using bestSchedules_filter[of allSchedules p] bestSchedules_fe_filter[of allSchedules q]
  by (simp add: bestSchedules_def bestSchedules_fe_def)

theorem bestSchedules_contract_witness:
  "bestSchedules [[friday_lab], [cs101_01], [cs101_02]] all_prefs = [[cs101_01], [cs101_02]]
   \<and> bestSchedules_fe [[friday_lab], [cs101_01], [cs101_02]] all_prefs_fe = [[cs101_01], [cs101_02]]
   \<and> bestSchedules [[friday_lab], [cs101_01], [cs101_02]] all_prefs
       = filter (\<lambda>s. scoreSchedule s all_prefs
                     = Min ((\<lambda>s. scoreSchedule s all_prefs) ` set [[friday_lab], [cs101_01], [cs101_02]]))
           [[friday_lab], [cs101_01], [cs101_02]]
   \<and> bestSchedules_fe [[friday_lab], [cs101_01], [cs101_02]] all_prefs_fe
       = filter (\<lambda>s. scoreSchedule_fe s all_prefs_fe
                     = Min ((\<lambda>s. scoreSchedule_fe s all_prefs_fe) ` set [[friday_lab], [cs101_01], [cs101_02]]))
           [[friday_lab], [cs101_01], [cs101_02]]"
proof -
  have ne: "[[friday_lab], [cs101_01], [cs101_02]] \<noteq> []" by simp
  have be: "bestSchedules [[friday_lab], [cs101_01], [cs101_02]] all_prefs = [[cs101_01], [cs101_02]]"
    by code_simp
  have fe: "bestSchedules_fe [[friday_lab], [cs101_01], [cs101_02]] all_prefs_fe = [[cs101_01], [cs101_02]]"
    by code_simp
  show ?thesis
    using bestSchedules_contract[of all_prefs "[[friday_lab], [cs101_01], [cs101_02]]" all_prefs_fe]
      ne be fe by blast
qed

section \<open>Properties of the time normalizer\<close>

lemma digit_not_special:
  assumes "is_digit c"
  shows "\<not> is_space c" "c \<noteq> CHR '':''" "c \<noteq> CHR '' ''" "c \<noteq> CHR ''.''" "c \<noteq> CHR ''-''" "c \<noteq> CHR ''+''"
  using assms by (auto simp: is_digit_def is_space_def)

lemma js_split_no_sep: "sep \<notin> set xs \<Longrightarrow> js_split sep xs = [xs]"
  by (induction xs) auto

lemma js_split_append: "sep \<notin> set xs \<Longrightarrow> js_split sep (xs @ sep # ys) = xs # js_split sep ys"
proof (induction xs)
  case Nil
  then show ?case by simp
next
  case (Cons x xs)
  then show ?case by (cases "js_split sep ys") auto
qed

lemma digits_no_char:
  assumes "list_all is_digit ds" "\<not> is_digit c"
  shows "c \<notin> set ds"
  using assms by (auto simp: list_all_iff)

lemma not_digit_special:
  "\<not> is_digit CHR '':''" "\<not> is_digit CHR '' ''" "\<not> is_digit CHR ''.''"
  by (simp_all add: is_digit_def)

lemma trim_digits:
  assumes "ds \<noteq> []" "list_all is_digit ds"
  shows "trim ds = ds"
proof -
  from assms obtain c rest where ds: "ds = c # rest" by (cases ds) auto
  then have "\<not> is_space c" using assms(2) by (simp add: digit_not_special)
  then have front: "dropWhile is_space ds = ds" using ds by simp
  have "rev ds \<noteq> []" using assms(1) by simp
  then obtain l more where r: "rev ds = l # more" by (cases "rev ds") auto
  then have "l \<in> set ds" by (metis list.set_intros(1) set_rev)
  then have "\<not> is_space l" using assms(2) by (auto simp: list_all_iff digit_not_special)
  then have "dropWhile is_space (rev ds) = rev ds" using r by simp
  then show ?thesis by (simp add: trim_def front)
qed

lemma Number_js_digits:
  assumes "ds \<noteq> []" "list_all is_digit ds"
  shows "Number_js ds = Fin (of_nat (dec_value ds))"
proof -
  from assms obtain c rest where ds: "ds = c # rest" by (cases ds) auto
  then have c: "c \<noteq> CHR ''-''" "c \<noteq> CHR ''+''" using assms(2) by (simp_all add: digit_not_special)
  have "CHR ''.'' \<notin> set ds" using assms(2) not_digit_special(3) by (rule digits_no_char)
  then have "js_split CHR ''.'' ds = [ds]" by (rule js_split_no_sep)
  then have "unsigned_decimal ds = Some (of_nat (dec_value ds))"
    using assms by (simp add: unsigned_decimal_def)
  then have "signed_decimal ds = Some (of_nat (dec_value ds))"
    using c by (simp add: signed_decimal_def ds)
  then show ?thesis using assms by (simp add: Number_js_def trim_digits)
qed


lemma parseTime_fe_parts:
  assumes "s \<noteq> []" "js_split CHR '' '' s = [time, modifier]"
    "js_split CHR '':'' time = [hs, ms]" "Number_js hs = Fin h" "Number_js ms = Fin m"
  shows "parseTime_fe (JStr s)
     = Fin ((if modifier = ''PM'' \<and> h < 12 then h + 12
             else if modifier = ''AM'' \<and> h = 12 then 0 else h) + m / 60)"
  using assms(1) by (simp add: parseTime_fe_def assms(2-5) nth_opt_def Let_def)

lemma parseTime_fe_12h:
  assumes "hs \<noteq> []" "list_all is_digit hs" "ms \<noteq> []" "list_all is_digit ms"
    and "modifier = ''AM'' \<or> modifier = ''PM''"
  shows "parseTime_fe (JStr (hs @ CHR '':'' # ms @ CHR '' '' # modifier))
     = Fin ((if modifier = ''PM'' \<and> dec_value hs < 12 then of_nat (dec_value hs) + 12
             else if modifier = ''AM'' \<and> dec_value hs = 12 then 0
             else of_nat (dec_value hs))
            + of_nat (dec_value ms) / 60)"
proof -
  let ?time = "hs @ CHR '':'' # ms"
  have "CHR '' '' \<notin> set hs" using assms(2) not_digit_special(2) by (rule digits_no_char)
  moreover have "CHR '' '' \<notin> set ms" using assms(4) not_digit_special(2) by (rule digits_no_char)
  ultimately have sp: "CHR '' '' \<notin> set ?time" by simp
  have "CHR '' '' \<notin> set modifier" using assms(5) by auto
  then have m1: "js_split CHR '' '' modifier = [modifier]" by (rule js_split_no_sep)
  have parts: "js_split CHR '' '' (?time @ CHR '' '' # modifier) = [?time, modifier]"
    by (simp only: js_split_append[OF sp] m1)
  have "CHR '':'' \<notin> set ms" using assms(4) not_digit_special(1) by (rule digits_no_char)
  then have m2: "js_split CHR '':'' ms = [ms]" by (rule js_split_no_sep)
  have c: "CHR '':'' \<notin> set hs" using assms(2) not_digit_special(1) by (rule digits_no_char)
  have nums: "js_split CHR '':'' ?time = [hs, ms]"
    by (simp only: js_split_append[OF c] m2)
  have h: "Number_js hs = Fin (of_nat (dec_value hs))" using assms(1,2) by (rule Number_js_digits)
  have m: "Number_js ms = Fin (of_nat (dec_value ms))" using assms(3,4) by (rule Number_js_digits)
  have s: "hs @ CHR '':'' # ms @ CHR '' '' # modifier = ?time @ CHR '' '' # modifier" by simp
  have ne: "?time @ CHR '' '' # modifier \<noteq> []" by simp
  have "parseTime_fe (JStr (?time @ CHR '' '' # modifier))
     = Fin ((if modifier = ''PM'' \<and> (of_nat (dec_value hs) :: rat) < 12 then of_nat (dec_value hs) + 12
             else if modifier = ''AM'' \<and> (of_nat (dec_value hs) :: rat) = 12 then 0
             else of_nat (dec_value hs))
            + of_nat (dec_value ms) / 60)"
    by (rule parseTime_fe_parts[OF ne parts nums h m])
  moreover have "(of_nat (dec_value hs) :: rat) < 12 \<longleftrightarrow> dec_value hs < 12"
    by (metis of_nat_less_iff of_nat_numeral)
  moreover have "(of_nat (dec_value hs) :: rat) = 12 \<longleftrightarrow> dec_value hs = 12"
    by (metis of_nat_eq_iff of_nat_numeral)
  ultimately show ?thesis unfolding s by (simp only:)
qed


lemma parseTime_24h:
  assumes "hs \<noteq> []" "list_all is_digit hs" "ms \<noteq> []" "list_all is_digit ms"
  shows "parseTime (JStr (hs @ CHR '':'' # ms)) = Fin (of_nat (dec_value hs) + of_nat (dec_value ms) / 60)"
proof -
  have "CHR '':'' \<notin> set ms" using assms(4) not_digit_special(1) by (rule digits_no_char)
  then have m2: "js_split CHR '':'' ms = [ms]" by (rule js_split_no_sep)
  have c: "CHR '':'' \<notin> set hs" using assms(2) not_digit_special(1) by (rule digits_no_char)
  have nums: "js_split CHR '':'' (hs @ CHR '':'' # ms) = [hs, ms]"
    by (simp only: js_split_append[OF c] m2)
  have h: "Number_js hs = Fin (of_nat (dec_value hs))" using assms(1,2) by (rule Number_js_digits)
  have m: "Number_js ms = Fin (of_nat (dec_value ms))" using assms(3,4) by (rule Number_js_digits)
  show ?thesis by (simp add: parseTime_def nums h m nth_opt_def Let_def del: append.simps)
qed

text \<open>
  Claim C5, as amended. For digits \<open>hs\<close> and \<open>ms\<close>, the frontend parser maps the
  12-hour string \<open>hs:ms AM\<close> to hours plus minutes over 60 with the hour 12 read as
  0, and \<open>hs:ms PM\<close> to the same with an hour below 12 advanced by 12. The backend
  parser has the 24-hour form only: it maps \<open>hs:ms\<close> to hours plus minutes over 60.
\<close>

theorem parseTime_12_hour:
  assumes "hs \<noteq> []" "list_all is_digit hs" "ms \<noteq> []" "list_all is_digit ms"
  shows "parseTime_fe (JStr (hs @ '':'' @ ms @ '' AM''))
           = Fin (of_nat (if dec_value hs = 12 then 0 else dec_value hs) + of_nat (dec_value ms) / 60)
       \<and> parseTime_fe (JStr (hs @ '':'' @ ms @ '' PM''))
           = Fin (of_nat (if dec_value hs < 12 then dec_value hs + 12 else dec_value hs)
                  + of_nat (dec_value ms) / 60)
       \<and> parseTime (JStr (hs @ '':'' @ ms))
           = Fin (of_nat (dec_value hs) + of_nat (dec_value ms) / 60)"
proof (intro conjI)
  have "parseTime_fe (JStr (hs @ CHR '':'' # ms @ CHR '' '' # ''AM''))
      = Fin (of_nat (if dec_value hs = 12 then 0 else dec_value hs) + of_nat (dec_value ms) / 60)"
    using parseTime_fe_12h[OF assms, of "''AM''"] by simp
  then show "parseTime_fe (JStr (hs @ '':'' @ ms @ '' AM''))
      = Fin (of_nat (if dec_value hs = 12 then 0 else dec_value hs) + of_nat (dec_value ms) / 60)"
    by simp
next
  have "parseTime_fe (JStr (hs @ CHR '':'' # ms @ CHR '' '' # ''PM''))
      = Fin (of_nat (if dec_value hs < 12 then dec_value hs + 12 else dec_value hs)
             + of_nat (dec_value ms) / 60)"
    using parseTime_fe_12h[OF assms, of "''PM''"] by simp
  then show "parseTime_fe (JStr (hs @ '':'' @ ms @ '' PM''))
      = Fin (of_nat (if dec_value hs < 12 then dec_value hs + 12 else dec_value hs)
             + of_nat (dec_value ms) / 60)"
    by simp
next
  show "parseTime (JStr (hs @ '':'' @ ms)) = Fin (of_nat (dec_value hs) + of_nat (dec_value ms) / 60)"
    using parseTime_24h[OF assms] by simp
qed

text \<open>
  The claim as stated fails for the backend parser, which has no 12-hour form: on
  \<^verbatim>\<open>"1:30 PM"\<close> its second part \<^verbatim>\<open>"30 PM"\<close> is not a number.
\<close>

theorem parseTime_12_hour_counterexample:
  "parseTime (JStr ''1:30 PM'') = NaN \<and> NaN \<noteq> Fin (27 / 2)"
  by code_simp

theorem parseTime_12_hour_witness:
  "parseTime_fe (JStr ''1:30 PM'') = Fin (27 / 2)
   \<and> parseTime_fe (JStr ''1:30 AM'') = Fin (3 / 2)
   \<and> parseTime (JStr ''1:30'') = Fin (3 / 2)"
proof -
  have d: "''1'' \<noteq> []" "list_all is_digit ''1''" "''30'' \<noteq> []" "list_all is_digit ''30''"
    by (simp_all add: is_digit_def)
  have v: "dec_value ''1'' = 1" "dec_value ''30'' = 30"
    by (simp_all add: dec_value_def digit_val_def)
  show ?thesis using parseTime_12_hour[OF d] by (simp add: v)
qed

text \<open>
  Claim C6 says that the parser returns \<open>0\<close> on a missing, an empty and an
  unparsable string. Neither parser throws, and both return \<open>0\<close> on
  \<^verbatim>\<open>undefined\<close> and \<^verbatim>\<open>null\<close>, as the frontend parser does on the empty string.
  On the empty string the backend parser returns \<open>NaN\<close>, and on \<^verbatim>\<open>"TBA"\<close> both
  parsers do: \<^verbatim>\<open>Number\<close> does not throw, so the \<^verbatim>\<open>catch\<close> of the backend
  parser is not reached, and the frontend parser guards the minutes only.
\<close>

theorem parseTime_unparsable:
  "parseTime JUndefined = Fin 0 \<and> parseTime JNull = Fin 0
   \<and> parseTime_fe JUndefined = Fin 0 \<and> parseTime_fe JNull = Fin 0
   \<and> parseTime_fe (JStr []) = Fin 0
   \<and> parseTime (JStr []) = NaN
   \<and> parseTime (JStr ''TBA'') = NaN
   \<and> parseTime_fe (JStr ''TBA'') = NaN"
  by code_simp

end
